theory Spec2Isabelle
  imports Complex_Main "HOL-Library.Sublist"
begin

section \<open>Values, objects and errors\<close>

text \<open>
  The JavaScript values that flow through \<^verbatim>\<open>src/index.js\<close>. A number is a real (every
  finite double is one; \<open>-0\<close> is identified with \<open>0\<close>, which neither \<^verbatim>\<open>===\<close> nor
  \<^verbatim>\<open>includes\<close> tells apart), an infinity (\<open>JInfinity True\<close> is the positive one) or \<open>NaN\<close>. A
  symbol, an object, an array or a function used as a value is an opaque reference
  compared by identity; \<open>JBuiltin\<close> names a built-in object of the language by its path.
\<close>

datatype jsval =
    JUndefined
  | JNull
  | JBool bool
  | JNum real
  | JInfinity bool
  | JNaN
  | JStr string
  | JSymbol nat
  | JObject nat
  | JBuiltin string

text \<open>\<^verbatim>\<open>const testOnlySymbol = Symbol('envalid - test only')\<close>\<close>

definition testOnlySymbol :: jsval where
  "testOnlySymbol = JSymbol 0"

text \<open>ToBoolean, \<^verbatim>\<open>===\<close>, \<^verbatim>\<open>== null\<close> and the test for a symbol.\<close>

fun truthy :: "jsval \<Rightarrow> bool" where
  "truthy JUndefined = False"
| "truthy JNull = False"
| "truthy (JBool b) = b"
| "truthy (JNum n) = (n \<noteq> 0)"
| "truthy (JInfinity _) = True"
| "truthy JNaN = False"
| "truthy (JStr s) = (s \<noteq> [])"
| "truthy (JSymbol _) = True"
| "truthy (JObject _) = True"
| "truthy (JBuiltin _) = True"

definition strict_eq :: "jsval \<Rightarrow> jsval \<Rightarrow> bool" where
  "strict_eq a b = (a = b \<and> a \<noteq> JNaN)"

definition loose_null :: "jsval \<Rightarrow> bool" where
  "loose_null v = (v = JNull \<or> v = JUndefined)"

fun is_symbol :: "jsval \<Rightarrow> bool" where
  "is_symbol (JSymbol _) = True"
| "is_symbol _ = False"

text \<open>
  An ordinary object is the list of its own enumerable properties in insertion order,
  one entry per key. Its prototype is \<^verbatim>\<open>Object.prototype\<close>, as it is for an object
  literal, for \<^verbatim>\<open>process.env\<close> and for the result of \<^verbatim>\<open>Object.assign({}, ...)\<close>, and
  \<^verbatim>\<open>Object.prototype\<close> is as the language defines it: built-in functions, \<^verbatim>\<open>constructor\<close>,
  and the accessor \<^verbatim>\<open>__proto__\<close>, whose getter returns the prototype.
\<close>

type_synonym obj = "(string \<times> jsval) list"

definition object_prototype :: obj where
  "object_prototype =
     [(''constructor'', JBuiltin ''Object''),
      (''__defineGetter__'', JBuiltin ''Object.prototype.__defineGetter__''),
      (''__defineSetter__'', JBuiltin ''Object.prototype.__defineSetter__''),
      (''hasOwnProperty'', JBuiltin ''Object.prototype.hasOwnProperty''),
      (''__lookupGetter__'', JBuiltin ''Object.prototype.__lookupGetter__''),
      (''__lookupSetter__'', JBuiltin ''Object.prototype.__lookupSetter__''),
      (''isPrototypeOf'', JBuiltin ''Object.prototype.isPrototypeOf''),
      (''propertyIsEnumerable'', JBuiltin ''Object.prototype.propertyIsEnumerable''),
      (''toString'', JBuiltin ''Object.prototype.toString''),
      (''valueOf'', JBuiltin ''Object.prototype.valueOf''),
      (''__proto__'', JBuiltin ''Object.prototype''),
      (''toLocaleString'', JBuiltin ''Object.prototype.toLocaleString'')]"

text \<open>
  \<^verbatim>\<open>o[k]\<close>: the own property, else the property inherited from \<^verbatim>\<open>Object.prototype\<close>, else
  \<open>undefined\<close>.
\<close>

definition inherited :: "string \<Rightarrow> jsval" where
  "inherited k = (case map_of object_prototype k of None \<Rightarrow> JUndefined | Some v \<Rightarrow> v)"

definition obj_get :: "obj \<Rightarrow> string \<Rightarrow> jsval" where
  "obj_get ob k = (case map_of ob k of None \<Rightarrow> inherited k | Some v \<Rightarrow> v)"

text \<open>
  Creating or updating the own property \<open>k\<close>: an existing key keeps its place, a new key
  goes last.
\<close>

fun obj_set :: "string \<Rightarrow> 'v \<Rightarrow> (string \<times> 'v) list \<Rightarrow> (string \<times> 'v) list" where
  "obj_set k v [] = [(k, v)]"
| "obj_set k v ((k', v') # rest) =
     (if k' = k then (k, v) # rest else (k', v') # obj_set k v rest)"

text \<open>
  \<^verbatim>\<open>o[k] = v\<close> on an ordinary object whose properties are writable. The key \<^verbatim>\<open>__proto__\<close>
  reaches the setter inherited from \<^verbatim>\<open>Object.prototype\<close>, which adds no property (that it
  replaces the prototype when \<open>v\<close> is an object is not represented).
\<close>

definition obj_put :: "string \<Rightarrow> 'v \<Rightarrow> (string \<times> 'v) list \<Rightarrow> (string \<times> 'v) list" where
  "obj_put k v ob = (if k = ''__proto__'' then ob else obj_set k v ob)"

text \<open>\<^verbatim>\<open>delete o[k]\<close>\<close>

definition obj_delete :: "string \<Rightarrow> (string \<times> 'v) list \<Rightarrow> (string \<times> 'v) list" where
  "obj_delete k ob = filter (\<lambda>kv. fst kv \<noteq> k) ob"

text \<open>
  The order in which \<^verbatim>\<open>Object.keys\<close> and \<^verbatim>\<open>Object.assign\<close> visit own properties: array
  indices (canonical decimal strings below \<open>2^32 - 1\<close>) in ascending numeric order, then
  the other keys in insertion order.
\<close>

definition is_digit :: "char \<Rightarrow> bool" where
  "is_digit c = (48 \<le> (of_char c :: nat) \<and> (of_char c :: nat) \<le> 57)"

definition digits_value :: "string \<Rightarrow> nat" where
  "digits_value s = foldl (\<lambda>n c. 10 * n + ((of_char c :: nat) - 48)) 0 s"

definition is_array_index :: "string \<Rightarrow> bool" where
  "is_array_index s =
     (s \<noteq> [] \<and> list_all is_digit s \<and> (s = ''0'' \<or> hd s \<noteq> CHR ''0'')
      \<and> digits_value s < 2 ^ 32 - 1)"

definition own_entries :: "(string \<times> 'v) list \<Rightarrow> (string \<times> 'v) list" where
  "own_entries ob =
     sort_key (\<lambda>kv. digits_value (fst kv)) (filter (\<lambda>kv. is_array_index (fst kv)) ob)
     @ filter (\<lambda>kv. \<not> is_array_index (fst kv)) ob"

definition object_keys :: "(string \<times> 'v) list \<Rightarrow> string list" where
  "object_keys ob = map fst (own_entries ob)"

text \<open>\<^verbatim>\<open>Object.assign(target, source)\<close> assigns every own enumerable property of the source.\<close>

definition object_assign :: "(string \<times> 'v) list \<Rightarrow> (string \<times> 'v) list \<Rightarrow> (string \<times> 'v) list" where
  "object_assign target source = foldl (\<lambda>t kv. obj_put (fst kv) (snd kv) t) target (own_entries source)"

text \<open>\<^verbatim>\<open>const extend = (x = {}, y = {}) => Object.assign({}, x, y)\<close>, here \<open>extend_obj\<close>.\<close>

definition extend_obj :: "(string \<times> 'v) list \<Rightarrow> (string \<times> 'v) list \<Rightarrow> (string \<times> 'v) list" where
  "extend_obj x y = object_assign (object_assign [] x) y"

text \<open>
  Errors as values. A message keeps the values interpolated into the source's template
  string instead of the rendered text. \<open>ProcessExit\<close> is not an exception: it stands for a
  callback that ended the process with that exit code, after which nothing runs.
\<close>

datatype message =
    InvalidSpec string
  | ChoicesNotArray string
  | NotInChoices jsval "jsval list"
  | InvalidValue string
  | SymbolToString
  | PropertyOfUndefined string
  | NotExtensible string
  | CannotRedefine string
  | UndeclaredKey string
  | Message string

datatype error =
    EnvError message
  | EnvMissingError string
  | TypeError message
  | ReferenceError message
  | OtherError message
  | ProcessExit nat

section \<open>Specs\<close>

text \<open>
  \<open>spec_parse\<close> is the \<^verbatim>\<open>_parse\<close> property: a function, which returns or throws, or
  anything else. \<open>spec_choices\<close> is an array or some other value (\<open>undefined\<close> when the
  property is absent). \<open>spec_default\<close> and \<open>spec_devDefault\<close> are \<open>None\<close> when the spec has
  no such own property. \<open>spec_requiredWhen\<close> is \<open>Some f\<close> exactly when
  \<^verbatim>\<open>typeof spec.requiredWhen === 'function'\<close>; the predicate returns a value or throws, and
  like the parse function it is taken to change nothing. A spec is an object: a spec map
  that holds \<open>null\<close> or \<open>undefined\<close> under a key is not represented.
\<close>

datatype parse_field = NotAFunction | ParseFn "jsval \<Rightarrow> error + jsval"

datatype choices_field = ChoicesArray "jsval list" | ChoicesValue jsval

record spec =
  spec_parse :: parse_field
  spec_choices :: choices_field
  spec_default :: "jsval option"
  spec_devDefault :: "jsval option"
  spec_desc :: "string option"
  spec_example :: "string option"
  spec_docs :: "string option"
  spec_requiredWhen :: "(obj \<Rightarrow> error + jsval) option"

definition own_value :: "jsval option \<Rightarrow> jsval" where
  "own_value p = (case p of None \<Rightarrow> JUndefined | Some v \<Rightarrow> v)"

text \<open>The object \<^verbatim>\<open>{}\<close> read as a spec: every property is absent.\<close>

definition empty_spec :: spec where
  "empty_spec =
     \<lparr>spec_parse = NotAFunction, spec_choices = ChoicesValue JUndefined,
      spec_default = None, spec_devDefault = None, spec_desc = None,
      spec_example = None, spec_docs = None, spec_requiredWhen = None\<rparr>"

section \<open>Validating one variable\<close>

definition validateVar :: "spec \<Rightarrow> string \<Rightarrow> jsval \<Rightarrow> error + jsval" where
  "validateVar spec name rawValue =
     (case spec_parse spec of
        NotAFunction \<Rightarrow> Inl (EnvError (InvalidSpec name))
      | ParseFn parse \<Rightarrow>
          (case parse rawValue of
             Inl e \<Rightarrow> Inl e
           | Inr v \<Rightarrow>
               (case (case spec_choices spec of
                        ChoicesValue c \<Rightarrow>
                          if truthy c then Some (TypeError (ChoicesNotArray name)) else None
                      | ChoicesArray cs \<Rightarrow>
                          if v \<in> set cs then None
                          else if is_symbol v \<or> list_ex is_symbol cs
                          then Some (TypeError SymbolToString)
                          else Some (EnvError (NotInChoices v cs))) of
                  Some e \<Rightarrow> Inl e
                | None \<Rightarrow>
                    if loose_null v then Inl (EnvError (InvalidValue name)) else Inr v)))"

definition formatSpecDescription :: "spec \<Rightarrow> string" where
  "formatSpecDescription spec =
     (let egText = (case spec_example spec of
                      None \<Rightarrow> []
                    | Some e \<Rightarrow> if e = [] then [] else '' (eg. '' @ [CHR 0x22] @ e @ [CHR 0x22] @ '')'');
          docsText = (case spec_docs spec of
                        None \<Rightarrow> []
                      | Some d \<Rightarrow> if d = [] then [] else ''. See '' @ d)
      in (case spec_desc spec of None \<Rightarrow> ''undefined'' | Some d \<Rightarrow> d) @ egText @ docsText)"

definition getDevDefault :: "spec \<Rightarrow> obj \<Rightarrow> jsval" where
  "getDevDefault spec env =
     (let isNotProd = \<not> strict_eq (obj_get env ''NODE_ENV'') (JStr ''production'');
          hasDevDefault = (spec_devDefault spec \<noteq> None)
      in if hasDevDefault \<and> isNotProd then own_value (spec_devDefault spec) else JUndefined)"

definition getRawValue :: "spec \<Rightarrow> obj \<Rightarrow> string \<Rightarrow> jsval" where
  "getRawValue spec env specKey =
     (let devDefault = getDevDefault spec env
      in if strict_eq (obj_get env specKey) JUndefined
         then (if strict_eq devDefault JUndefined then own_value (spec_default spec) else devDefault)
         else obj_get env specKey)"

definition assertTestOnlySymbol :: "spec \<Rightarrow> jsval \<Rightarrow> error + unit" where
  "assertTestOnlySymbol spec rawValue =
     (if strict_eq rawValue testOnlySymbol
      then Inl (EnvMissingError (formatSpecDescription spec))
      else Inr ())"

definition usingFalsyDefault :: "spec \<Rightarrow> obj \<Rightarrow> jsval \<Rightarrow> bool" where
  "usingFalsyDefault spec env rawValue =
     (let isNotProd = \<not> strict_eq (obj_get env ''NODE_ENV'') (JStr ''production'');
          hasDevDefault = (spec_devDefault spec \<noteq> None);
          hasDefault = (spec_default spec \<noteq> None)
      in if hasDefault \<and> strict_eq (own_value (spec_default spec)) rawValue then True
         else if hasDevDefault \<and> isNotProd \<and> strict_eq (own_value (spec_devDefault spec)) rawValue
         then True
         else False)"

definition validate :: "spec \<Rightarrow> string \<Rightarrow> jsval \<Rightarrow> obj \<Rightarrow> error + jsval" where
  "validate spec specKey rawValue env =
     (if strict_eq rawValue JUndefined
      then (if \<not> usingFalsyDefault spec env rawValue
            then Inl (EnvMissingError (formatSpecDescription spec))
            else Inr JUndefined)
      else validateVar spec specKey rawValue)"

text \<open>
  The body of the \<^verbatim>\<open>try\<close> block of \<^verbatim>\<open>validateSpecs\<close> for one key, up to the assignment:
  the raw value is resolved, checked against the test-only symbol and validated.
\<close>

definition attempt :: "spec \<Rightarrow> obj \<Rightarrow> string \<Rightarrow> error + jsval" where
  "attempt spec env specKey =
     (let rawValue = getRawValue spec env specKey
      in case assertTestOnlySymbol spec rawValue of
           Inl e \<Rightarrow> Inl e
         | Inr _ \<Rightarrow> validate spec specKey rawValue env)"

section \<open>Output objects, options and observable events\<close>

text \<open>
  The object \<^verbatim>\<open>cleanEnv\<close> assembles carries property attributes, since
  \<^verbatim>\<open>Object.defineProperties\<close> and \<^verbatim>\<open>Object.freeze\<close> act on them. \<open>guarded\<close> tells that the
  object is reached through the strict-mode wrapping.
\<close>

record property =
  p_value :: jsval
  p_writable :: bool
  p_enumerable :: bool
  p_configurable :: bool

record jsobj =
  props :: "(string \<times> property) list"
  extensible :: bool
  guarded :: bool

text \<open>
  What a run does that its callbacks can observe: the \<^verbatim>\<open>try\<close> block is entered for a key,
  a \<^verbatim>\<open>requiredWhen\<close> predicate is called with the output built so far, the reporter is
  called with the error map and the assembled object.
\<close>

datatype event =
    EvValidate string
  | EvRequiredWhen string obj
  | EvReporter "(string \<times> error) list" jsobj

text \<open>
  \<open>ReporterUndefined\<close> stands for an omitted reporter (and for any falsy one other than
  \<open>null\<close>). A reporter function returns (\<open>None\<close>), throws, or ends the process. A
  transformer returns an object or throws; \<open>None\<close> is a falsy \<^verbatim>\<open>options.transformer\<close>.
\<close>

datatype dotEnvPath_field = PathNull | PathUndefined | Path string

datatype reporter_field =
    ReporterNull
  | ReporterUndefined
  | ReporterFn "(string \<times> error) list \<Rightarrow> jsobj \<Rightarrow> error option"

text \<open>\<^verbatim>\<open>options.reporter === null\<close>\<close>

fun reporter_is_null :: "reporter_field \<Rightarrow> bool" where
  "reporter_is_null ReporterNull = True"
| "reporter_is_null _ = False"

record options =
  opt_dotEnvPath :: dotEnvPath_field
  opt_strict :: bool
  opt_reporter :: reporter_field
  opt_transformer :: "(jsobj \<Rightarrow> error + jsobj) option"

text \<open>\<^verbatim>\<open>options = {}\<close>, the default of \<^verbatim>\<open>cleanEnv\<close>.\<close>

definition empty_options :: options where
  "empty_options =
     \<lparr>opt_dotEnvPath = PathUndefined, opt_strict = False,
      opt_reporter = ReporterUndefined, opt_transformer = None\<rparr>"

section \<open>The orchestrator\<close>

text \<open>
  The variables \<^verbatim>\<open>validateSpecs\<close> updates while it loops, and the events so far. A
  throw carries the error and the events up to it.
\<close>

record vstate =
  s_output :: obj
  s_errors :: "(string \<times> error) list"
  s_deferKeys :: "string list"
  s_hasDeferments :: bool
  s_trace :: "event list"

type_synonym specs = "(string \<times> spec) list"

text \<open>
  One call of the \<^verbatim>\<open>forEach\<close> callback. The keys it is called with are own keys of the spec
  map (\<^verbatim>\<open>Object.keys(specs)\<close>, or the queue filled from them); other keys do not occur,
  and for them the definition answers with the \<^verbatim>\<open>TypeError\<close> of reading \<^verbatim>\<open>requiredWhen\<close> of
  \<open>undefined\<close>. An exception thrown by \<^verbatim>\<open>requiredWhen\<close> leaves the \<^verbatim>\<open>catch\<close> block and the
  loop, whatever the reporter.
  \<^verbatim>\<open>validateSpecs\<close> is not exported: the spec map it gets from \<^verbatim>\<open>cleanEnv\<close> is made by
  \<^verbatim>\<open>extend\<close> and has no own key \<^verbatim>\<open>__proto__\<close>, so \<^verbatim>\<open>output[specKey] = ...\<close> and
  \<^verbatim>\<open>errors[specKey] = ...\<close> create or update an own property.
\<close>

definition step :: "bool \<Rightarrow> specs \<Rightarrow> obj \<Rightarrow> options \<Rightarrow> string \<Rightarrow> vstate
    \<Rightarrow> (error \<times> event list) + vstate" where
  "step shouldProcessDeferments specs env opts specKey s =
     (case map_of specs specKey of
        None \<Rightarrow> Inl (TypeError (PropertyOfUndefined ''requiredWhen''), s_trace s)
      | Some spec \<Rightarrow>
          let hasRequiredWhen = (spec_requiredWhen spec \<noteq> None)
          in if \<not> shouldProcessDeferments \<and> hasRequiredWhen
             then Inr (s\<lparr>s_hasDeferments := True, s_deferKeys := s_deferKeys s @ [specKey]\<rparr>)
             else
               let tr = s_trace s @ [EvValidate specKey]
               in case attempt spec env specKey of
                    Inr v \<Rightarrow> Inr (s\<lparr>s_output := obj_set specKey v (s_output s), s_trace := tr\<rparr>)
                  | Inl e \<Rightarrow>
                      (case spec_requiredWhen spec of
                         Some requiredWhen \<Rightarrow>
                           let tr' = tr @ [EvRequiredWhen specKey (s_output s)]
                           in (case requiredWhen (s_output s) of
                                 Inl thrown \<Rightarrow> Inl (thrown, tr')
                               | Inr required \<Rightarrow>
                                   if \<not> truthy required then Inr (s\<lparr>s_trace := tr'\<rparr>)
                                   else if reporter_is_null (opt_reporter opts) then Inl (e, tr')
                                   else Inr (s\<lparr>s_errors := obj_set specKey e (s_errors s),
                                               s_trace := tr'\<rparr>))
                       | None \<Rightarrow>
                           if reporter_is_null (opt_reporter opts) then Inl (e, tr)
                           else Inr (s\<lparr>s_errors := obj_set specKey e (s_errors s), s_trace := tr\<rparr>)))"

fun forEach_keys :: "bool \<Rightarrow> specs \<Rightarrow> obj \<Rightarrow> options \<Rightarrow> string list \<Rightarrow> vstate
    \<Rightarrow> (error \<times> event list) + vstate" where
  "forEach_keys spd specs env opts [] s = Inr s"
| "forEach_keys spd specs env opts (specKey # rest) s =
     (case step spd specs env opts specKey s of
        Inl x \<Rightarrow> Inl x
      | Inr s' \<Rightarrow> forEach_keys spd specs env opts rest s')"

lemma step_deferments:
  "step True specs env opts k s = Inr s' \<Longrightarrow> s_hasDeferments s' = s_hasDeferments s"
  by (auto simp: step_def Let_def split: option.splits sum.splits if_splits)

lemma forEach_keys_deferments:
  "forEach_keys True specs env opts ks s = Inr s' \<Longrightarrow> s_hasDeferments s' = s_hasDeferments s"
proof (induction ks arbitrary: s)
  case Nil
  then show ?case by simp
next
  case (Cons k ks)
  then show ?case
    by (auto split: sum.splits dest: step_deferments)
qed

text \<open>
  \<^verbatim>\<open>validateSpecs({ specs, env, deferKeys = [], output = {}, options })\<close>. The queue is
  processed exactly when it is not empty, \<^verbatim>\<open>errors\<close> and \<^verbatim>\<open>hasDeferments\<close> are fresh in
  every call, and the value returned is \<^verbatim>\<open>{ output, errors }\<close>.
\<close>

record validated =
  v_output :: obj
  v_errors :: "(string \<times> error) list"
  v_trace :: "event list"

function validateSpecs :: "specs \<Rightarrow> obj \<Rightarrow> string list \<Rightarrow> obj \<Rightarrow> options \<Rightarrow> event list
    \<Rightarrow> (error \<times> event list) + validated" where
  "validateSpecs specs env deferKeys0 output0 opts tr =
     (let keysToValidate = (if deferKeys0 \<noteq> [] then deferKeys0 else object_keys specs);
          shouldProcessDeferments = (deferKeys0 \<noteq> [])
      in case forEach_keys shouldProcessDeferments specs env opts keysToValidate
                \<lparr>s_output = output0, s_errors = [], s_deferKeys = deferKeys0,
                 s_hasDeferments = False, s_trace = tr\<rparr> of
           Inl x \<Rightarrow> Inl x
         | Inr s \<Rightarrow>
             if s_hasDeferments s \<and> s_deferKeys s \<noteq> []
             then validateSpecs specs env (s_deferKeys s) (s_output s) opts (s_trace s)
             else Inr \<lparr>v_output = s_output s, v_errors = s_errors s, v_trace = s_trace s\<rparr>)"
  by pat_completeness auto

termination
proof (relation "measure (\<lambda>(specs, env, deferKeys0, output0, opts, tr). if deferKeys0 = [] then 1 else 0)")
  show "wf (measure (\<lambda>(specs, env, deferKeys0, output0, opts, tr). if deferKeys0 = [] then 1 else (0::nat)))"
    by simp
next
  fix specs :: specs and env :: obj and deferKeys0 :: "string list" and output0 :: obj
    and opts :: options and tr :: "event list" and keysToValidate spd s
  assume k: "keysToValidate = (if deferKeys0 \<noteq> [] then deferKeys0 else object_keys specs)"
    and d: "spd = (deferKeys0 \<noteq> [])"
    and run: "forEach_keys spd specs env opts keysToValidate
                \<lparr>s_output = output0, s_errors = [], s_deferKeys = deferKeys0,
                 s_hasDeferments = False, s_trace = tr\<rparr> = Inr s"
    and again: "s_hasDeferments s \<and> s_deferKeys s \<noteq> []"
  have "deferKeys0 = []"
  proof (rule ccontr)
    assume "deferKeys0 \<noteq> []"
    with d run have "s_hasDeferments s = False"
      using forEach_keys_deferments by fastforce
    with again show False by simp
  qed
  with again show "((specs, env, s_deferKeys s, s_output s, opts, s_trace s),
                    (specs, env, deferKeys0, output0, opts, tr))
      \<in> measure (\<lambda>(specs, env, deferKeys0, output0, opts, tr). if deferKeys0 = [] then 1 else 0)"
    by simp
qed

declare validateSpecs.simps [simp del]

section \<open>Assembling the output\<close>

definition plain_object :: "obj \<Rightarrow> jsobj" where
  "plain_object ob =
     \<lparr>props = map (\<lambda>kv. (fst kv, \<lparr>p_value = snd kv, p_writable = True,
                                    p_enumerable = True, p_configurable = True\<rparr>)) ob,
      extensible = True, guarded = False\<rparr>"

text \<open>The value of an own property, \<open>undefined\<close> when the object has no such property.\<close>

definition prop_get :: "jsobj \<Rightarrow> string \<Rightarrow> jsval" where
  "prop_get ob k = (case map_of (props ob) k of None \<Rightarrow> JUndefined | Some p \<Rightarrow> p_value p)"

text \<open>
  \<^verbatim>\<open>Object.defineProperty(ob, k, { value: v })\<close>: a new property is read-only, hidden
  from enumeration and not configurable; an existing one keeps its attributes and takes
  the value when it may change.
\<close>

definition define_value :: "string \<Rightarrow> jsval \<Rightarrow> jsobj \<Rightarrow> error + jsobj" where
  "define_value k v ob =
     (case map_of (props ob) k of
        None \<Rightarrow>
          if extensible ob
          then Inr (ob\<lparr>props := props ob @ [(k, \<lparr>p_value = v, p_writable = False,
                                                  p_enumerable = False, p_configurable = False\<rparr>)]\<rparr>)
          else Inl (TypeError (NotExtensible k))
      | Some p \<Rightarrow>
          if p_configurable p \<or> p_writable p \<or> p_value p = v
          then Inr (ob\<lparr>props := obj_set k (p\<lparr>p_value := v\<rparr>) (props ob)\<rparr>)
          else Inl (TypeError (CannotRedefine k)))"

fun defineProperties :: "jsobj \<Rightarrow> (string \<times> jsval) list \<Rightarrow> error + jsobj" where
  "defineProperties ob [] = Inr ob"
| "defineProperties ob ((k, v) # rest) =
     (case define_value k v ob of
        Inl e \<Rightarrow> Inl e
      | Inr ob' \<Rightarrow> defineProperties ob' rest)"

text \<open>
  \<^verbatim>\<open>Object.freeze(ob)\<close>; through the strict-mode wrapping it freezes the wrapped object and
  returns the wrapping.
\<close>

definition freeze :: "jsobj \<Rightarrow> jsobj" where
  "freeze ob =
     ob\<lparr>props := map (\<lambda>kp. (fst kp, (snd kp)\<lparr>p_writable := False, p_configurable := False\<rparr>)) (props ob),
        extensible := False\<rparr>"

definition isFrozen :: "jsobj \<Rightarrow> bool" where
  "isFrozen ob =
     (\<not> extensible ob \<and> list_all (\<lambda>kp. \<not> p_writable (snd kp) \<and> \<not> p_configurable (snd kp)) (props ob))"

text \<open>
  The assignment \<^verbatim>\<open>ob[k] = v\<close> made by a caller: \<open>None\<close> when the object rejects it
  (a \<^verbatim>\<open>TypeError\<close> in strict-mode code, no effect otherwise).
\<close>

definition assign :: "string \<Rightarrow> jsval \<Rightarrow> jsobj \<Rightarrow> jsobj option" where
  "assign k v ob =
     (case map_of (props ob) k of
        Some p \<Rightarrow>
          if p_writable p then Some (ob\<lparr>props := obj_set k (p\<lparr>p_value := v\<rparr>) (props ob)\<rparr>)
          else None
      | None \<Rightarrow>
          if extensible ob
          then Some (ob\<lparr>props := props ob @ [(k, \<lparr>p_value = v, p_writable = True,
                                                   p_enumerable = True, p_configurable = True\<rparr>)]\<rparr>)
          else None)"

section \<open>The environment and its collaborators\<close>

text \<open>
  The caller's environment is an object in a store, so that a change made through one
  reference is seen through every other. What lies outside \<^verbatim>\<open>src/index.js\<close> is a
  parameter: reading and parsing the dotenv file, the default reporter and the parse
  function of the built-in string validator.
\<close>

record store =
  cells :: "nat \<Rightarrow> obj option"
  fresh :: nat

definition alloc :: "obj \<Rightarrow> store \<Rightarrow> nat \<times> store" where
  "alloc ob st = (fresh st, st\<lparr>cells := (cells st)(fresh st \<mapsto> ob), fresh := Suc (fresh st)\<rparr>)"

datatype file_result = NoSuchFile | ReadFailure error | FileContents obj

record world =
  readDotEnv :: "string \<Rightarrow> file_result"
  defaultReporter :: "(string \<times> error) list \<Rightarrow> jsobj \<Rightarrow> error option"
  str_parse :: "jsval \<Rightarrow> error + jsval"

text \<open>
  Modelled from the spec: \<^verbatim>\<open>lib/validators\<close> is not among the sources. The spec gives
  \<^verbatim>\<open>makeValidator(coreParseFn) -> (perCallOptions) -> Spec\<close>: the per-call options become
  the Spec, with the core parse function as its \<^verbatim>\<open>parse\<close>.
\<close>

definition makeValidator :: "(jsval \<Rightarrow> error + jsval) \<Rightarrow> spec \<Rightarrow> spec" where
  "makeValidator coreParseFn perCallOptions = perCallOptions\<lparr>spec_parse := ParseFn coreParseFn\<rparr>"

definition str :: "world \<Rightarrow> spec \<Rightarrow> spec" where
  "str w = makeValidator (str_parse w)"

text \<open>
  Modelled from the spec: \<^verbatim>\<open>lib/strictProxy\<close> is not among the sources. The spec gives the
  strict-mode wrapping as what restricts object key access: access to undeclared keys is
  guarded. The wrapping shows the properties of its target as they are; reading a key the
  target does not have throws.
\<close>

definition strictProxy :: "jsobj \<Rightarrow> obj \<Rightarrow> jsobj" where
  "strictProxy target originalEnv = target\<lparr>guarded := True\<rparr>"

text \<open>\<^verbatim>\<open>ob[k]\<close> read by the caller of \<^verbatim>\<open>cleanEnv\<close> from the object returned.\<close>

definition read_property :: "jsobj \<Rightarrow> string \<Rightarrow> error + jsval" where
  "read_property ob k =
     (case map_of (props ob) k of
        Some p \<Rightarrow> Inr (p_value p)
      | None \<Rightarrow> if guarded ob then Inl (ReferenceError (UndeclaredKey k)) else Inr (inherited k))"

definition extendWithDotEnv :: "world \<Rightarrow> store \<Rightarrow> nat \<Rightarrow> string \<Rightarrow> error + (nat \<times> store)" where
  "extendWithDotEnv w st inputEnv dotEnvPath =
     (case readDotEnv w dotEnvPath of
        NoSuchFile \<Rightarrow> Inr (inputEnv, st)
      | ReadFailure err \<Rightarrow> Inl err
      | FileContents parsed \<Rightarrow>
          Inr (alloc (extend_obj parsed (case cells st inputEnv of None \<Rightarrow> [] | Some ob \<Rightarrow> ob)) st))"

definition getEnv :: "world \<Rightarrow> store \<Rightarrow> nat \<Rightarrow> options \<Rightarrow> error + (nat \<times> store)" where
  "getEnv w st inputEnv opts =
     (case (case opt_dotEnvPath opts of
              PathNull \<Rightarrow> Inr (inputEnv, st)
            | PathUndefined \<Rightarrow> extendWithDotEnv w st inputEnv ''.env''
            | Path p \<Rightarrow> extendWithDotEnv w st inputEnv p) of
        Inl err \<Rightarrow> Inl err
      | Inr (env, st1) \<Rightarrow>
          (case cells st1 env of
             None \<Rightarrow> Inl (TypeError (PropertyOfUndefined ''NODE_ENV''))
           | Some ob \<Rightarrow>
               if \<not> truthy (obj_get ob ''NODE_ENV'') \<or> strict_eq (obj_get ob ''NODE_ENV'') (JStr [])
               then Inr (env, st1\<lparr>cells := (cells st1)(env \<mapsto> obj_delete ''NODE_ENV'' ob)\<rparr>)
               else Inr (env, st1)))"

section \<open>cleanEnv\<close>

text \<open>
  What a call leaves behind: the object returned, or the error thrown (\<open>ProcessExit\<close>
  when a callback ended the process instead), the events in order, and the store. A
  transformer is taken to return an object when it returns.
\<close>

record run =
  outcome :: "error + jsobj"
  events :: "event list"
  final_store :: store

text \<open>
  \<^verbatim>\<open>const specs = extend({ NODE_ENV: str({ choices: [...], default: 'production' }) }, userSpecs)\<close>
  and the descriptors handed to \<^verbatim>\<open>Object.defineProperties\<close>.
\<close>

definition cleanEnv_specs :: "world \<Rightarrow> specs \<Rightarrow> specs" where
  "cleanEnv_specs w userSpecs =
     extend_obj
       [(''NODE_ENV'',
         str w (empty_spec\<lparr>spec_choices := ChoicesArray [JStr ''development'', JStr ''test'', JStr ''production''],
                          spec_default := Some (JStr ''production'')\<rparr>))]
       userSpecs"

definition mode_flags :: "obj \<Rightarrow> (string \<times> jsval) list" where
  "mode_flags outp =
     [(''isDevelopment'', JBool (strict_eq (obj_get outp ''NODE_ENV'') (JStr ''development''))),
      (''isDev'', JBool (strict_eq (obj_get outp ''NODE_ENV'') (JStr ''development''))),
      (''isProduction'', JBool (strict_eq (obj_get outp ''NODE_ENV'') (JStr ''production''))),
      (''isProd'', JBool (strict_eq (obj_get outp ''NODE_ENV'') (JStr ''production''))),
      (''isTest'', JBool (strict_eq (obj_get outp ''NODE_ENV'') (JStr ''test'')))]"

definition cleanEnv :: "world \<Rightarrow> store \<Rightarrow> nat \<Rightarrow> specs \<Rightarrow> options \<Rightarrow> run" where
  "cleanEnv w st inputEnv userSpecs opts =
     (case getEnv w st inputEnv opts of
        Inl err \<Rightarrow> \<lparr>outcome = Inl err, events = [], final_store = st\<rparr>
      | Inr (envRef, st1) \<Rightarrow>
          let env = (case cells st1 envRef of None \<Rightarrow> [] | Some ob \<Rightarrow> ob);
              specs = cleanEnv_specs w userSpecs
          in case validateSpecs specs env [] [] opts [] of
               Inl (err, tr) \<Rightarrow> \<lparr>outcome = Inl err, events = tr, final_store = st1\<rparr>
             | Inr r \<Rightarrow>
                 let outp = v_output r;
                     finalOutput = plain_object (if opt_strict opts then outp else extend_obj env outp)
                 in case defineProperties finalOutput (mode_flags outp) of
                      Inl err \<Rightarrow> \<lparr>outcome = Inl err, events = v_trace r, final_store = st1\<rparr>
                    | Inr flagged \<Rightarrow>
                        (case (case opt_transformer opts of
                                 Some transformer \<Rightarrow> transformer flagged
                               | None \<Rightarrow> Inr flagged) of
                           Inl err \<Rightarrow> \<lparr>outcome = Inl err, events = v_trace r, final_store = st1\<rparr>
                         | Inr finalOutput' \<Rightarrow>
                             let reporter = (case opt_reporter opts of
                                               ReporterFn f \<Rightarrow> f
                                             | _ \<Rightarrow> defaultReporter w);
                                 tr = v_trace r @ [EvReporter (v_errors r) finalOutput']
                             in case reporter (v_errors r) finalOutput' of
                                  Some err \<Rightarrow> \<lparr>outcome = Inl err, events = tr, final_store = st1\<rparr>
                                | None \<Rightarrow>
                                    \<lparr>outcome = Inr (freeze (if opt_strict opts
                                                            then strictProxy finalOutput' env
                                                            else finalOutput')),
                                     events = tr, final_store = st1\<rparr>))"

text \<open>
  Modelled from the spec: \<^verbatim>\<open>lib/reporter\<close> and \<^verbatim>\<open>lib/validators\<close> are not among the
  sources. A world for evaluating concrete calls of \<^verbatim>\<open>cleanEnv\<close>: no dotenv file; a default
  reporter that returns when the error map is empty and otherwise ends the process (the
  spec gives console output and process termination as its behaviour); a string validator
  whose parse function returns strings as they are and rejects everything else.
\<close>

definition example_world :: world where
  "example_world =
     \<lparr>readDotEnv = (\<lambda>_. NoSuchFile),
      defaultReporter = (\<lambda>errors _. if errors = [] then None else Some (ProcessExit 1)),
      str_parse = (\<lambda>v. case v of JStr s \<Rightarrow> Inr (JStr s) | _ \<Rightarrow> Inl (EnvError (Message ''Not a string'')))\<rparr>"

section \<open>Describing a run\<close>

text \<open>\<^verbatim>\<open>typeof specs[specKey].requiredWhen === 'function'\<close>, for a key of the map.\<close>

definition hasRequiredWhen :: "specs \<Rightarrow> string \<Rightarrow> bool" where
  "hasRequiredWhen specs specKey =
     (case map_of specs specKey of None \<Rightarrow> False | Some spec \<Rightarrow> spec_requiredWhen spec \<noteq> None)"

text \<open>What validating one key does to the output: a validated value is stored, nothing else is.\<close>

definition settle :: "specs \<Rightarrow> obj \<Rightarrow> obj \<Rightarrow> string \<Rightarrow> obj" where
  "settle specs env outp specKey =
     (case map_of specs specKey of
        None \<Rightarrow> outp
      | Some spec \<Rightarrow> (case attempt spec env specKey of Inl _ \<Rightarrow> outp | Inr v \<Rightarrow> obj_set specKey v outp))"

text \<open>The value validation gives a key, if it gives one.\<close>

definition validated_value :: "specs \<Rightarrow> obj \<Rightarrow> string \<Rightarrow> jsval option" where
  "validated_value specs env k =
     (case map_of specs k of
        None \<Rightarrow> None
      | Some sp \<Rightarrow> (case attempt sp env k of Inl _ \<Rightarrow> None | Inr v \<Rightarrow> Some v))"

text \<open>
  The keys of one pass for which the \<^verbatim>\<open>try\<close> block runs, and the keys the pass puts in the
  queue.
\<close>

definition processed :: "bool \<Rightarrow> specs \<Rightarrow> string list \<Rightarrow> string list" where
  "processed spd specs ks = (if spd then ks else filter (\<lambda>k. \<not> hasRequiredWhen specs k) ks)"

definition queued :: "bool \<Rightarrow> specs \<Rightarrow> string list \<Rightarrow> string list" where
  "queued spd specs ks = (if spd then [] else filter (hasRequiredWhen specs) ks)"

text \<open>Keys without \<^verbatim>\<open>requiredWhen\<close> in the order of \<^verbatim>\<open>Object.keys\<close>, then the queue.\<close>

definition validation_order :: "specs \<Rightarrow> string list" where
  "validation_order specs =
     filter (\<lambda>k. \<not> hasRequiredWhen specs k) (object_keys specs)
     @ filter (hasRequiredWhen specs) (object_keys specs)"

text \<open>The events of a pass or of a whole run, whether it returned or threw.\<close>

fun trace_of :: "(error \<times> event list) + vstate \<Rightarrow> event list" where
  "trace_of (Inl (e, tr)) = tr"
| "trace_of (Inr s) = s_trace s"

fun run_trace :: "(error \<times> event list) + validated \<Rightarrow> event list" where
  "run_trace (Inl (e, tr)) = tr"
| "run_trace (Inr r) = v_trace r"

fun is_validate :: "event \<Rightarrow> bool" where
  "is_validate (EvValidate _) = True"
| "is_validate _ = False"

text \<open>The error map a reporter was called with.\<close>

fun reported_errors :: "event \<Rightarrow> (string \<times> error) list option" where
  "reported_errors (EvReporter errors _) = Some errors"
| "reported_errors _ = None"


fun returns_falsy :: "error + jsval \<Rightarrow> bool" where
  "returns_falsy (Inr v) = (\<not> truthy v)"
| "returns_falsy (Inl _) = False"





text \<open>
  The mode a run resolves: the value validation gives the key \<^verbatim>\<open>NODE_ENV\<close>, which \<^verbatim>\<open>cleanEnv\<close>
  reads as \<^verbatim>\<open>output.NODE_ENV\<close>.
\<close>

definition resolved_mode :: "specs \<Rightarrow> obj \<Rightarrow> jsval option" where
  "resolved_mode specs env = validated_value specs env ''NODE_ENV''"


text \<open>The two passes of \<^verbatim>\<open>validateSpecs\<close>: the first call, and the call it makes on the queue.\<close>

definition phase1 :: "specs \<Rightarrow> obj \<Rightarrow> options \<Rightarrow> (error \<times> event list) + vstate" where
  "phase1 specs env opts =
     forEach_keys False specs env opts (object_keys specs)
       \<lparr>s_output = [], s_errors = [], s_deferKeys = [], s_hasDeferments = False, s_trace = []\<rparr>"

definition phase2 :: "specs \<Rightarrow> obj \<Rightarrow> options \<Rightarrow> vstate \<Rightarrow> (error \<times> event list) + vstate" where
  "phase2 specs env opts s1 =
     forEach_keys True specs env opts (s_deferKeys s1)
       \<lparr>s_output = s_output s1, s_errors = [], s_deferKeys = s_deferKeys s1,
        s_hasDeferments = False, s_trace = s_trace s1\<rparr>"

section \<open>Evaluating concrete runs\<close>

text \<open>The definitions a concrete call unfolds to.\<close>

lemmas run_eval =
  validateSpecs.simps object_keys_def own_entries_def is_array_index_def is_digit_def
  step_def attempt_def getRawValue_def getDevDefault_def strict_eq_def obj_get_def inherited_def
  object_prototype_def own_value_def
  assertTestOnlySymbol_def testOnlySymbol_def validate_def usingFalsyDefault_def validateVar_def
  formatSpecDescription_def loose_null_def Let_def empty_spec_def empty_options_def

lemmas clean_eval =
  cleanEnv_def getEnv_def extendWithDotEnv_def cleanEnv_specs_def str_def makeValidator_def
  extend_obj_def object_assign_def obj_put_def plain_object_def mode_flags_def define_value_def
  freeze_def prop_get_def obj_delete_def example_world_def strictProxy_def read_property_def

section \<open>The loop\<close>

lemma map_of_obj_set: "map_of (obj_set k v ob) = (map_of ob)(k \<mapsto> v)"
  by (induction ob) (auto simp: fun_eq_iff)

text \<open>The spec map \<^verbatim>\<open>cleanEnv\<close> builds has no own key \<^verbatim>\<open>__proto__\<close>.\<close>

lemma foldl_obj_put_keys:
  "map_of target ''__proto__'' = None \<Longrightarrow>
   map_of (foldl (\<lambda>t kv. obj_put (fst kv) (snd kv) t) target entries) ''__proto__'' = None"
proof (induction entries arbitrary: target)
  case Nil
  then show ?case by simp
next
  case (Cons kv entries)
  from Cons.prems have "map_of (obj_put (fst kv) (snd kv) target) ''__proto__'' = None"
    by (simp add: obj_put_def map_of_obj_set)
  from Cons.IH [OF this] show ?case by simp
qed

lemma cleanEnv_specs_keys: "map_of (cleanEnv_specs w userSpecs) ''__proto__'' = None"
  unfolding cleanEnv_specs_def extend_obj_def object_assign_def
  by (intro foldl_obj_put_keys) simp

lemma step_unknown:
  "map_of specs k = None \<Longrightarrow>
   step spd specs env opts k s = Inl (TypeError (PropertyOfUndefined ''requiredWhen''), s_trace s)"
  by (simp add: step_def)

lemma step_defer:
  "map_of specs k = Some sp \<Longrightarrow> \<not> spd \<Longrightarrow> spec_requiredWhen sp = Some rw \<Longrightarrow>
   step spd specs env opts k s = Inr (s\<lparr>s_hasDeferments := True, s_deferKeys := s_deferKeys s @ [k]\<rparr>)"
  by (simp add: step_def)

lemma step_success:
  "map_of specs k = Some sp \<Longrightarrow> spd \<or> spec_requiredWhen sp = None \<Longrightarrow> attempt sp env k = Inr v \<Longrightarrow>
   step spd specs env opts k s =
     Inr (s\<lparr>s_output := obj_set k v (s_output s), s_trace := s_trace s @ [EvValidate k]\<rparr>)"
  by (auto simp: step_def)

lemma step_failure_plain:
  "map_of specs k = Some sp \<Longrightarrow> spec_requiredWhen sp = None \<Longrightarrow> attempt sp env k = Inl e \<Longrightarrow>
   step spd specs env opts k s =
     (if reporter_is_null (opt_reporter opts) then Inl (e, s_trace s @ [EvValidate k])
      else Inr (s\<lparr>s_errors := obj_set k e (s_errors s), s_trace := s_trace s @ [EvValidate k]\<rparr>))"
  by (simp add: step_def)

lemma step_failure_guarded:
  "map_of specs k = Some sp \<Longrightarrow> spd \<Longrightarrow> spec_requiredWhen sp = Some rw \<Longrightarrow> attempt sp env k = Inl e \<Longrightarrow>
   step spd specs env opts k s =
     (case rw (s_output s) of
        Inl thrown \<Rightarrow> Inl (thrown, s_trace s @ [EvValidate k, EvRequiredWhen k (s_output s)])
      | Inr required \<Rightarrow>
          if \<not> truthy required
          then Inr (s\<lparr>s_trace := s_trace s @ [EvValidate k, EvRequiredWhen k (s_output s)]\<rparr>)
          else if reporter_is_null (opt_reporter opts)
          then Inl (e, s_trace s @ [EvValidate k, EvRequiredWhen k (s_output s)])
          else Inr (s\<lparr>s_errors := obj_set k e (s_errors s),
                      s_trace := s_trace s @ [EvValidate k, EvRequiredWhen k (s_output s)]\<rparr>))"
  by (simp add: step_def split: sum.splits)

lemma step_cases:
  obtains
    (unknown) "map_of specs k = None"
  | (deferred) sp rw where "map_of specs k = Some sp" "\<not> spd" "spec_requiredWhen sp = Some rw"
  | (success) sp v where "map_of specs k = Some sp" "spd \<or> spec_requiredWhen sp = None"
      "attempt sp env k = Inr v"
  | (failure_plain) sp e where "map_of specs k = Some sp" "spec_requiredWhen sp = None"
      "attempt sp env k = Inl e"
  | (failure_guarded) sp rw e where "map_of specs k = Some sp" "spd" "spec_requiredWhen sp = Some rw"
      "attempt sp env k = Inl e"
proof (cases "map_of specs k")
  case None
  then show ?thesis by (rule unknown)
next
  case (Some sp)
  show ?thesis
  proof (cases "spec_requiredWhen sp")
    case None
    with Some show ?thesis
      by (cases "attempt sp env k") (auto intro: success failure_plain)
  next
    case (Some rw)
    note rw = this
    show ?thesis
    proof (cases spd)
      case True
      with \<open>map_of specs k = Some sp\<close> rw show ?thesis
        by (cases "attempt sp env k") (auto intro: success failure_guarded)
    next
      case False
      with \<open>map_of specs k = Some sp\<close> rw show ?thesis
        by (auto intro: deferred)
    qed
  qed
qed

lemma rw_event_origin:
  "EvRequiredWhen k outp \<in> set (trace_of (forEach_keys spd specs env opts ks s)) \<Longrightarrow>
   EvRequiredWhen k outp \<in> set (s_trace s)
   \<or> (\<exists>pre post. processed spd specs ks = pre @ k # post
         \<and> outp = foldl (settle specs env) (s_output s) pre)"
proof (induction ks arbitrary: s)
  case Nil
  then show ?case by simp
next
  case (Cons k0 ks)
  let ?ev = "EvRequiredWhen k outp"
  have later: "\<exists>pre post. processed spd specs (k0 # ks) = pre @ k # post
         \<and> outp = foldl (settle specs env) (s_output s) pre"
    if "processed spd specs (k0 # ks) = k0 # processed spd specs ks"
      and "processed spd specs ks = pre @ k # post"
      and "outp = foldl (settle specs env) (settle specs env (s_output s) k0) pre" for pre post
  proof -
    from that have "processed spd specs (k0 # ks) = (k0 # pre) @ k # post
        \<and> outp = foldl (settle specs env) (s_output s) (k0 # pre)"
      by simp
    then show ?thesis by blast
  qed
  have here: "\<exists>pre post. processed spd specs (k0 # ks) = pre @ k # post
         \<and> outp = foldl (settle specs env) (s_output s) pre"
    if "processed spd specs (k0 # ks) = k0 # processed spd specs ks" and "k = k0" and "outp = s_output s"
  proof -
    from that have "processed spd specs (k0 # ks) = [] @ k # processed spd specs ks
        \<and> outp = foldl (settle specs env) (s_output s) []"
      by simp
    then show ?thesis by blast
  qed
  show ?case
  proof (cases rule: step_cases [where specs=specs and k=k0 and spd=spd and env=env])
    case unknown
    with Cons.prems show ?thesis
      by (simp add: step_unknown)
  next
    case (deferred sp rw)
    then have st: "step spd specs env opts k0 s
        = Inr (s\<lparr>s_hasDeferments := True, s_deferKeys := s_deferKeys s @ [k0]\<rparr>)"
      by (rule step_defer)
    from deferred have p: "processed spd specs (k0 # ks) = processed spd specs ks"
      by (simp add: processed_def hasRequiredWhen_def)
    from Cons.prems st Cons.IH [of "s\<lparr>s_hasDeferments := True, s_deferKeys := s_deferKeys s @ [k0]\<rparr>"] p
    show ?thesis by simp
  next
    case (success sp v)
    then have st: "step spd specs env opts k0 s
        = Inr (s\<lparr>s_output := obj_set k0 v (s_output s), s_trace := s_trace s @ [EvValidate k0]\<rparr>)"
      by (rule step_success)
    from success have p: "processed spd specs (k0 # ks) = k0 # processed spd specs ks"
      by (auto simp: processed_def hasRequiredWhen_def)
    from success have o: "settle specs env (s_output s) k0 = obj_set k0 v (s_output s)"
      by (simp add: settle_def)
    from Cons.prems st
      Cons.IH [of "s\<lparr>s_output := obj_set k0 v (s_output s), s_trace := s_trace s @ [EvValidate k0]\<rparr>"]
    show ?thesis
      using later [OF p] o by auto
  next
    case (failure_plain sp e)
    from failure_plain have p: "processed spd specs (k0 # ks) = k0 # processed spd specs ks"
      by (auto simp: processed_def hasRequiredWhen_def)
    from failure_plain have o: "settle specs env (s_output s) k0 = s_output s"
      by (simp add: settle_def)
    from Cons.prems step_failure_plain [OF failure_plain, of spd opts s]
      Cons.IH [of "s\<lparr>s_errors := obj_set k0 e (s_errors s), s_trace := s_trace s @ [EvValidate k0]\<rparr>"]
    show ?thesis
      using later [OF p] o by (auto split: if_splits)
  next
    case (failure_guarded sp rw e)
    from failure_guarded have p: "processed spd specs (k0 # ks) = k0 # processed spd specs ks"
      by (auto simp: processed_def hasRequiredWhen_def)
    from failure_guarded have o: "settle specs env (s_output s) k0 = s_output s"
      by (simp add: settle_def)
    show ?thesis
    proof (cases "step spd specs env opts k0 s")
      case (Inl x)
      with step_failure_guarded [OF failure_guarded, of opts s]
      have "trace_of (step spd specs env opts k0 s)
          = s_trace s @ [EvValidate k0, EvRequiredWhen k0 (s_output s)]"
        by (auto split: sum.splits if_splits)
      with Cons.prems Inl have "?ev \<in> set (s_trace s) \<or> (k = k0 \<and> outp = s_output s)"
        by auto
      with here [OF p] show ?thesis by blast
    next
      case (Inr s1)
      with step_failure_guarded [OF failure_guarded, of opts s]
      have tr: "s_trace s1 = s_trace s @ [EvValidate k0, EvRequiredWhen k0 (s_output s)]"
        and out: "s_output s1 = s_output s"
        by (auto split: sum.splits if_splits)
      from Cons.prems Inr have "?ev \<in> set (trace_of (forEach_keys spd specs env opts ks s1))"
        by simp
      from Cons.IH [OF this]
      consider "?ev \<in> set (s_trace s)" | "k = k0 \<and> outp = s_output s"
        | pre post where "processed spd specs ks = pre @ k # post"
            "outp = foldl (settle specs env) (s_output s1) pre"
        using tr by auto
      then show ?thesis
      proof cases
        case 1
        then show ?thesis by simp
      next
        case 2
        with here [OF p] show ?thesis by blast
      next
        case (3 pre post)
        with later [OF p, of pre post] o out show ?thesis by simp
      qed
    qed
  qed
qed

lemma settle_simps:
  "map_of specs k = None \<Longrightarrow> settle specs env outp k = outp"
  "map_of specs k = Some sp \<Longrightarrow> attempt sp env k = Inr v \<Longrightarrow> settle specs env outp k = obj_set k v outp"
  "map_of specs k = Some sp \<Longrightarrow> attempt sp env k = Inl e \<Longrightarrow> settle specs env outp k = outp"
  by (simp_all add: settle_def)

lemma processed_simps:
  "map_of specs k = None \<Longrightarrow> processed spd specs (k # ks) = k # processed spd specs ks"
  "map_of specs k = Some sp \<Longrightarrow> spd \<or> spec_requiredWhen sp = None \<Longrightarrow>
     processed spd specs (k # ks) = k # processed spd specs ks"
  "map_of specs k = Some sp \<Longrightarrow> \<not> spd \<Longrightarrow> spec_requiredWhen sp = Some rw \<Longrightarrow>
     processed spd specs (k # ks) = processed spd specs ks"
  by (auto simp: processed_def hasRequiredWhen_def)

lemma queued_simps:
  "map_of specs k = Some sp \<Longrightarrow> spd \<or> spec_requiredWhen sp = None \<Longrightarrow>
     queued spd specs (k # ks) = queued spd specs ks"
  "map_of specs k = Some sp \<Longrightarrow> \<not> spd \<Longrightarrow> spec_requiredWhen sp = Some rw \<Longrightarrow>
     queued spd specs (k # ks) = k # queued spd specs ks"
  by (auto simp: queued_def hasRequiredWhen_def)

lemma forEach_keys_state:
  "forEach_keys spd specs env opts ks s = Inr s' \<Longrightarrow>
   s_output s' = foldl (settle specs env) (s_output s) (processed spd specs ks)
   \<and> s_deferKeys s' = s_deferKeys s @ queued spd specs ks
   \<and> s_hasDeferments s' = (s_hasDeferments s \<or> queued spd specs ks \<noteq> [])"
proof (induction ks arbitrary: s)
  case Nil
  then show ?case by (simp add: processed_def queued_def)
next
  case (Cons k0 ks)
  show ?case
  proof (cases rule: step_cases [where specs=specs and k=k0 and spd=spd and env=env])
    case unknown
    with Cons.prems show ?thesis
      by (simp add: step_unknown)
  next
    case (deferred sp rw)
    from Cons.prems step_defer [OF deferred, of env opts s]
      Cons.IH [of "s\<lparr>s_hasDeferments := True, s_deferKeys := s_deferKeys s @ [k0]\<rparr>"]
    show ?thesis
      by (simp add: processed_simps(3) [OF deferred] queued_simps(2) [OF deferred])
  next
    case (success sp v)
    from Cons.prems step_success [OF success, of opts s]
      Cons.IH [of "s\<lparr>s_output := obj_set k0 v (s_output s), s_trace := s_trace s @ [EvValidate k0]\<rparr>"]
    show ?thesis
      by (simp add: processed_simps(2) [OF success(1,2)] queued_simps(1) [OF success(1,2)]
          settle_simps(2) [OF success(1,3)])
  next
    case (failure_plain sp e)
    from Cons.prems step_failure_plain [OF failure_plain, of spd opts s]
      Cons.IH [of "s\<lparr>s_errors := obj_set k0 e (s_errors s), s_trace := s_trace s @ [EvValidate k0]\<rparr>"]
    show ?thesis
      by (simp add: processed_simps(2) [OF failure_plain(1)] queued_simps(1) [OF failure_plain(1)]
          failure_plain(2) settle_simps(3) [OF failure_plain(1,3)] split: if_splits)
  next
    case (failure_guarded sp rw e)
    from Cons.prems step_failure_guarded [OF failure_guarded, of opts s]
      Cons.IH [of "s\<lparr>s_trace := s_trace s @ [EvValidate k0, EvRequiredWhen k0 (s_output s)]\<rparr>"]
      Cons.IH [of "s\<lparr>s_errors := obj_set k0 e (s_errors s),
                  s_trace := s_trace s @ [EvValidate k0, EvRequiredWhen k0 (s_output s)]\<rparr>"]
    show ?thesis
      by (simp add: processed_simps(2) [OF failure_guarded(1)] queued_simps(1) [OF failure_guarded(1)]
          failure_guarded(2) settle_simps(3) [OF failure_guarded(1,4)] split: if_splits sum.splits)
  qed
qed


lemma rw_event_failed:
  "EvRequiredWhen k outp \<in> set (trace_of (forEach_keys spd specs env opts ks s)) \<Longrightarrow>
   EvRequiredWhen k outp \<in> set (s_trace s)
   \<or> (spd \<and> (\<exists>sp rw e. map_of specs k = Some sp \<and> spec_requiredWhen sp = Some rw
                  \<and> attempt sp env k = Inl e))"
proof (induction ks arbitrary: s)
  case Nil
  then show ?case by simp
next
  case (Cons k0 ks)
  show ?case
  proof (cases rule: step_cases [where specs=specs and k=k0 and spd=spd and env=env])
    case unknown
    with Cons.prems show ?thesis
      by (simp add: step_unknown)
  next
    case (deferred sp rw)
    from Cons.prems step_defer [OF deferred, of env opts s]
      Cons.IH [of "s\<lparr>s_hasDeferments := True, s_deferKeys := s_deferKeys s @ [k0]\<rparr>"]
    show ?thesis by simp
  next
    case (success sp v)
    from Cons.prems step_success [OF success, of opts s]
      Cons.IH [of "s\<lparr>s_output := obj_set k0 v (s_output s), s_trace := s_trace s @ [EvValidate k0]\<rparr>"]
    show ?thesis by auto
  next
    case (failure_plain sp e)
    from Cons.prems step_failure_plain [OF failure_plain, of spd opts s]
      Cons.IH [of "s\<lparr>s_errors := obj_set k0 e (s_errors s), s_trace := s_trace s @ [EvValidate k0]\<rparr>"]
    show ?thesis by (auto split: if_splits)
  next
    case (failure_guarded sp rw e)
    from Cons.prems step_failure_guarded [OF failure_guarded, of opts s]
      Cons.IH [of "s\<lparr>s_trace := s_trace s @ [EvValidate k0, EvRequiredWhen k0 (s_output s)]\<rparr>"]
      Cons.IH [of "s\<lparr>s_errors := obj_set k0 e (s_errors s),
                  s_trace := s_trace s @ [EvValidate k0, EvRequiredWhen k0 (s_output s)]\<rparr>"]
      failure_guarded
    show ?thesis by (auto split: if_splits sum.splits)
  qed
qed

lemma validate_trace:
  "\<exists>done. prefix done (processed spd specs ks)
      \<and> filter is_validate (trace_of (forEach_keys spd specs env opts ks s))
          = filter is_validate (s_trace s) @ map EvValidate done
      \<and> (\<not> spd \<longrightarrow> trace_of (forEach_keys spd specs env opts ks s) = s_trace s @ map EvValidate done)
      \<and> (\<forall>s'. forEach_keys spd specs env opts ks s = Inr s' \<longrightarrow> done = processed spd specs ks)"
proof (induction ks arbitrary: s)
  case Nil
  show ?case by (simp add: processed_def)
next
  case (Cons k0 ks)
  have stop: ?case
    if "processed spd specs (k0 # ks) = k0 # processed spd specs ks"
      and "step spd specs env opts k0 s = Inl (e, tr)"
      and "filter is_validate tr = filter is_validate (s_trace s) @ [EvValidate k0]"
      and "\<not> spd \<longrightarrow> tr = s_trace s @ [EvValidate k0]" for e tr
  proof -
    from that have "prefix [k0] (processed spd specs (k0 # ks))
      \<and> filter is_validate (trace_of (forEach_keys spd specs env opts (k0 # ks) s))
          = filter is_validate (s_trace s) @ map EvValidate [k0]
      \<and> (\<not> spd \<longrightarrow> trace_of (forEach_keys spd specs env opts (k0 # ks) s) = s_trace s @ map EvValidate [k0])
      \<and> (\<forall>s'. forEach_keys spd specs env opts (k0 # ks) s = Inr s' \<longrightarrow> [k0] = processed spd specs (k0 # ks))"
      by (cases spd) simp_all
    then show ?thesis by blast
  qed
  have go: ?case
    if p: "processed spd specs (k0 # ks) = k0 # processed spd specs ks"
      and st: "step spd specs env opts k0 s = Inr s1"
      and f: "filter is_validate (s_trace s1) = filter is_validate (s_trace s) @ [EvValidate k0]"
      and t: "\<not> spd \<longrightarrow> s_trace s1 = s_trace s @ [EvValidate k0]" for s1
  proof -
    from Cons.IH [of s1] obtain done' where d: "prefix done' (processed spd specs ks)"
      "filter is_validate (trace_of (forEach_keys spd specs env opts ks s1))
          = filter is_validate (s_trace s1) @ map EvValidate done'"
      "\<not> spd \<longrightarrow> trace_of (forEach_keys spd specs env opts ks s1) = s_trace s1 @ map EvValidate done'"
      "\<forall>s'. forEach_keys spd specs env opts ks s1 = Inr s' \<longrightarrow> done' = processed spd specs ks"
      by blast
    from d p st f t have "prefix (k0 # done') (processed spd specs (k0 # ks))
      \<and> filter is_validate (trace_of (forEach_keys spd specs env opts (k0 # ks) s))
          = filter is_validate (s_trace s) @ map EvValidate (k0 # done')
      \<and> (\<not> spd \<longrightarrow> trace_of (forEach_keys spd specs env opts (k0 # ks) s) = s_trace s @ map EvValidate (k0 # done'))
      \<and> (\<forall>s'. forEach_keys spd specs env opts (k0 # ks) s = Inr s' \<longrightarrow> k0 # done' = processed spd specs (k0 # ks))"
      by (cases spd) simp_all
    then show ?thesis by blast
  qed
  show ?case
  proof (cases rule: step_cases [where specs=specs and k=k0 and spd=spd and env=env])
    case unknown
    have "prefix [] (processed spd specs (k0 # ks))
      \<and> filter is_validate (trace_of (forEach_keys spd specs env opts (k0 # ks) s))
          = filter is_validate (s_trace s) @ map EvValidate []
      \<and> (\<not> spd \<longrightarrow> trace_of (forEach_keys spd specs env opts (k0 # ks) s) = s_trace s @ map EvValidate [])
      \<and> (\<forall>s'. forEach_keys spd specs env opts (k0 # ks) s = Inr s' \<longrightarrow> [] = processed spd specs (k0 # ks))"
      by (simp add: step_unknown [OF unknown])
    then show ?thesis by blast
  next
    case (deferred sp rw)
    from deferred(2) have spd: "spd = False" by simp
    from processed_simps(3) [OF deferred]
    have p: "processed False specs (k0 # ks) = processed False specs ks"
      by (simp add: spd)
    from step_defer [OF deferred, of env opts s]
      Cons.IH [of "s\<lparr>s_hasDeferments := True, s_deferKeys := s_deferKeys s @ [k0]\<rparr>"]
    show ?thesis
      by (simp add: spd p)
  next
    case (success sp v)
    show ?thesis
      by (rule go [OF processed_simps(2) [OF success(1,2)] step_success [OF success]]) simp_all
  next
    case (failure_plain sp e)
    note p = processed_simps(2) [OF failure_plain(1) disjI2 [OF failure_plain(2)]]
    show ?thesis
    proof (cases "reporter_is_null (opt_reporter opts)")
      case True
      with step_failure_plain [OF failure_plain, of spd opts s]
      have "step spd specs env opts k0 s = Inl (e, s_trace s @ [EvValidate k0])"
        by simp
      then show ?thesis
        by (rule stop [OF p]) simp_all
    next
      case False
      with step_failure_plain [OF failure_plain, of spd opts s]
      have "step spd specs env opts k0 s
          = Inr (s\<lparr>s_errors := obj_set k0 e (s_errors s), s_trace := s_trace s @ [EvValidate k0]\<rparr>)"
        by simp
      then show ?thesis
        by (rule go [OF p]) simp_all
    qed
  next
    case (failure_guarded sp rw e)
    note p = processed_simps(2) [OF failure_guarded(1) disjI1 [OF failure_guarded(2)]]
    show ?thesis
    proof (cases "step spd specs env opts k0 s")
      case (Inl x)
      obtain e' tr where x: "x = (e', tr)" by (cases x)
      from Inl x step_failure_guarded [OF failure_guarded, of opts s]
      have tr: "tr = s_trace s @ [EvValidate k0, EvRequiredWhen k0 (s_output s)]"
        by (auto split: sum.splits if_splits)
      from Inl x have "step spd specs env opts k0 s = Inl (e', tr)" by simp
      then show ?thesis
        by (rule stop [OF p]) (simp_all add: tr failure_guarded(2))
    next
      case (Inr s1)
      with step_failure_guarded [OF failure_guarded, of opts s]
      have tr: "s_trace s1 = s_trace s @ [EvValidate k0, EvRequiredWhen k0 (s_output s)]"
        by (auto split: sum.splits if_splits)
      show ?thesis
        by (rule go [OF p Inr]) (simp_all add: tr failure_guarded(2))
    qed
  qed
qed


















lemma set_object_keys: "set (object_keys ob) = fst ` set ob"
  by (auto simp: object_keys_def own_entries_def)

lemma distinct_object_keys: "distinct (map fst ob) \<Longrightarrow> distinct (object_keys ob)"
  by (auto simp: object_keys_def own_entries_def distinct_map distinct_map_filter
      intro: inj_on_subset)


lemma phase1_state:
  assumes "phase1 specs env opts = Inr s1"
  shows "s_output s1 = foldl (settle specs env) [] (filter (\<lambda>k. \<not> hasRequiredWhen specs k) (object_keys specs))"
    and "s_deferKeys s1 = filter (hasRequiredWhen specs) (object_keys specs)"
    and "s_hasDeferments s1 = (filter (hasRequiredWhen specs) (object_keys specs) \<noteq> [])"
    and "s_trace s1 = map EvValidate (filter (\<lambda>k. \<not> hasRequiredWhen specs k) (object_keys specs))"
proof -
  from forEach_keys_state [OF assms [unfolded phase1_def]]
  show "s_output s1 = foldl (settle specs env) [] (filter (\<lambda>k. \<not> hasRequiredWhen specs k) (object_keys specs))"
    and "s_deferKeys s1 = filter (hasRequiredWhen specs) (object_keys specs)"
    and "s_hasDeferments s1 = (filter (hasRequiredWhen specs) (object_keys specs) \<noteq> [])"
    by (simp_all add: processed_def queued_def)
  from validate_trace [of False specs "object_keys specs" env opts
      "\<lparr>s_output = [], s_errors = [], s_deferKeys = [], s_hasDeferments = False, s_trace = []\<rparr>"]
    assms
  show "s_trace s1 = map EvValidate (filter (\<lambda>k. \<not> hasRequiredWhen specs k) (object_keys specs))"
    by (auto simp: phase1_def processed_def)
qed

lemma validateSpecs_cases:
  obtains
    (abort1) e tr where "phase1 specs env opts = Inl (e, tr)"
      "validateSpecs specs env [] [] opts [] = Inl (e, tr)"
  | (single) s1 where "phase1 specs env opts = Inr s1" "s_deferKeys s1 = []"
      "validateSpecs specs env [] [] opts []
         = Inr \<lparr>v_output = s_output s1, v_errors = s_errors s1, v_trace = s_trace s1\<rparr>"
  | (abort2) s1 e tr where "phase1 specs env opts = Inr s1" "s_deferKeys s1 \<noteq> []"
      "phase2 specs env opts s1 = Inl (e, tr)"
      "validateSpecs specs env [] [] opts [] = Inl (e, tr)"
  | (double) s1 s2 where "phase1 specs env opts = Inr s1" "s_deferKeys s1 \<noteq> []"
      "phase2 specs env opts s1 = Inr s2"
      "validateSpecs specs env [] [] opts []
         = Inr \<lparr>v_output = s_output s2, v_errors = s_errors s2, v_trace = s_trace s2\<rparr>"
proof (cases "phase1 specs env opts")
  case (Inl x)
  obtain e tr where x: "x = (e, tr)" by (cases x)
  from Inl x have "validateSpecs specs env [] [] opts [] = Inl (e, tr)"
    by (simp add: validateSpecs.simps [of specs env "[]"] phase1_def)
  with Inl x show ?thesis by (auto intro: abort1)
next
  case (Inr s1)
  note p1 = phase1_state [OF Inr]
  show ?thesis
  proof (cases "s_deferKeys s1 = []")
    case True
    with Inr have "validateSpecs specs env [] [] opts []
         = Inr \<lparr>v_output = s_output s1, v_errors = s_errors s1, v_trace = s_trace s1\<rparr>"
      by (simp add: validateSpecs.simps [of specs env "[]"] phase1_def)
    with Inr True show ?thesis by (rule single)
  next
    case False
    with p1 have d: "s_hasDeferments s1" by simp
    from Inr False d have v: "validateSpecs specs env [] [] opts []
        = validateSpecs specs env (s_deferKeys s1) (s_output s1) opts (s_trace s1)"
      by (simp add: validateSpecs.simps [of specs env "[]"] phase1_def)
    show ?thesis
    proof (cases "phase2 specs env opts s1")
      case (Inl x)
      obtain e tr where x: "x = (e, tr)" by (cases x)
      from Inl x False have "validateSpecs specs env (s_deferKeys s1) (s_output s1) opts (s_trace s1)
          = Inl (e, tr)"
        by (simp add: validateSpecs.simps [of specs env "s_deferKeys s1"] phase2_def)
      with v \<open>phase1 specs env opts = Inr s1\<close> False Inl x show ?thesis
        by (auto intro: abort2)
    next
      case (Inr s2)
      from forEach_keys_deferments [OF Inr [unfolded phase2_def]]
      have "\<not> s_hasDeferments s2" by simp
      with Inr False have "validateSpecs specs env (s_deferKeys s1) (s_output s1) opts (s_trace s1)
          = Inr \<lparr>v_output = s_output s2, v_errors = s_errors s2, v_trace = s_trace s2\<rparr>"
        by (simp add: validateSpecs.simps [of specs env "s_deferKeys s1"] phase2_def)
      with v \<open>phase1 specs env opts = Inr s1\<close> False Inr show ?thesis
        by (auto intro: double)
    qed
  qed
qed

lemma map_of_settle:
  "map_of (settle specs env outp k) =
     (case validated_value specs env k of None \<Rightarrow> map_of outp | Some v \<Rightarrow> (map_of outp)(k \<mapsto> v))"
  by (simp add: settle_def validated_value_def map_of_obj_set split: option.splits sum.splits)

lemma map_of_foldl_settle:
  "map_of (foldl (settle specs env) outp ks) k =
     (if k \<in> set ks \<and> validated_value specs env k \<noteq> None then validated_value specs env k
      else map_of outp k)"
proof (induction ks arbitrary: outp)
  case Nil
  show ?case by simp
next
  case (Cons k0 ks)
  show ?case
    by (auto simp: Cons.IH map_of_settle split: option.splits)
qed

lemma phase1_no_requiredWhen:
  "EvRequiredWhen k outp \<notin> set (trace_of (phase1 specs env opts))"
proof
  assume "EvRequiredWhen k outp \<in> set (trace_of (phase1 specs env opts))"
  from rw_event_failed [OF this [unfolded phase1_def]] show False by simp
qed

lemma hasRequiredWhen_queue:
  "map_of specs k = Some sp \<Longrightarrow> spec_requiredWhen sp = Some rw \<Longrightarrow>
   k \<in> set (filter (hasRequiredWhen specs) (object_keys specs))"
  by (auto simp: hasRequiredWhen_def set_object_keys dest: map_of_SomeD intro!: image_eqI [where x="(k, sp)"])

lemma filter_is_validate_map [simp]: "filter is_validate (map EvValidate ks) = map EvValidate ks"
  by (induction ks) auto

lemma run_validate_trace:
  "prefix (filter is_validate (run_trace (validateSpecs specs env [] [] opts [])))
          (map EvValidate (validation_order specs))
   \<and> (\<forall>r. validateSpecs specs env [] [] opts [] = Inr r
         \<longrightarrow> filter is_validate (v_trace r) = map EvValidate (validation_order specs))"
proof -
  let ?nd = "filter (\<lambda>k. \<not> hasRequiredWhen specs k) (object_keys specs)"
  let ?dk = "filter (hasRequiredWhen specs) (object_keys specs)"
  from validate_trace [of False specs "object_keys specs" env opts
      "\<lparr>s_output = [], s_errors = [], s_deferKeys = [], s_hasDeferments = False, s_trace = []\<rparr>"]
  obtain done1 where d1: "prefix done1 ?nd"
    "trace_of (phase1 specs env opts) = map EvValidate done1"
    by (auto simp: phase1_def processed_def)
  have second: "\<exists>done2. prefix done2 ?dk
      \<and> filter is_validate (trace_of (phase2 specs env opts s1)) = map EvValidate (?nd @ done2)
      \<and> (\<forall>s2. phase2 specs env opts s1 = Inr s2 \<longrightarrow> done2 = ?dk)"
    if "phase1 specs env opts = Inr s1" for s1
    using validate_trace [of True specs "s_deferKeys s1" env opts
      "\<lparr>s_output = s_output s1, s_errors = [], s_deferKeys = s_deferKeys s1,
        s_hasDeferments = False, s_trace = s_trace s1\<rparr>"] phase1_state(2,4) [OF that]
    by (auto simp: phase2_def processed_def)
  show ?thesis
  proof (cases rule: validateSpecs_cases [of specs env opts])
    case (abort1 e tr)
    with d1 show ?thesis
      by (auto simp: validation_order_def intro!: prefix_prefix map_mono_prefix)
  next
    case (single s1)
    with phase1_state(2,4) [OF single(1)] show ?thesis
      by (simp add: validation_order_def)
  next
    case (abort2 s1 e tr)
    with second [OF abort2(1)] show ?thesis
      by (auto simp: validation_order_def map_mono_prefix)
  next
    case (double s1 s2)
    with second [OF double(1)] show ?thesis
      by (auto simp: validation_order_def)
  qed
qed

lemma requiredWhen_argument:
  assumes "EvRequiredWhen k outp \<in> set (run_trace (validateSpecs specs env [] [] opts []))"
  shows "\<exists>pre post. filter (hasRequiredWhen specs) (object_keys specs) = pre @ k # post
           \<and> outp = foldl (settle specs env) []
                (filter (\<lambda>k. \<not> hasRequiredWhen specs k) (object_keys specs) @ pre)"
proof -
  have second: ?thesis
    if p1: "phase1 specs env opts = Inr s1"
      and ev: "EvRequiredWhen k outp \<in> set (trace_of (phase2 specs env opts s1))" for s1
  proof -
    from phase1_no_requiredWhen [of k outp specs env opts] p1
    have "EvRequiredWhen k outp \<notin> set (s_trace s1)" by simp
    with rw_event_origin [OF ev [unfolded phase2_def]] phase1_state(1,2) [OF p1]
    show ?thesis by (auto simp: processed_def)
  qed
  show ?thesis
  proof (cases rule: validateSpecs_cases [of specs env opts])
    case (abort1 e tr)
    with assms phase1_no_requiredWhen [of k outp specs env opts] show ?thesis by simp
  next
    case (single s1)
    with assms phase1_no_requiredWhen [of k outp specs env opts] show ?thesis by simp
  next
    case (abort2 s1 e tr)
    with assms second [OF abort2(1)] show ?thesis by simp
  next
    case (double s1 s2)
    with assms second [OF double(1)] show ?thesis by simp
  qed
qed

lemma distinct_validation_order:
  "distinct (map fst specs) \<Longrightarrow> distinct (validation_order specs)"
  by (auto simp: validation_order_def dest: distinct_object_keys)


section \<open>The result of a run\<close>











text \<open>Validation never gives a key the value \<open>null\<close>.\<close>

lemma attempt_not_null: "attempt sp env k \<noteq> Inr JNull"
  by (auto simp: attempt_def assertTestOnlySymbol_def validate_def validateVar_def loose_null_def
      Let_def split: if_splits parse_field.splits sum.splits choices_field.splits option.splits)

section \<open>Property attributes and freezing\<close>

lemma isFrozen_freeze: "isFrozen (freeze ob)"
  by (simp add: isFrozen_def freeze_def list_all_iff)

lemma isFrozen_assign: "isFrozen ob \<Longrightarrow> assign k v ob = None"
  by (auto simp: isFrozen_def assign_def list_all_iff split: option.splits dest!: map_of_SomeD)

lemma map_of_map_snd:
  "map_of (map (\<lambda>kp. (fst kp, f (snd kp))) xs) k = map_option f (map_of xs k)"
  by (induction xs) auto

lemma map_of_freeze:
  "map_of (props (freeze ob)) k
     = map_option (\<lambda>p. p\<lparr>p_writable := False, p_configurable := False\<rparr>) (map_of (props ob) k)"
  by (simp add: freeze_def
      map_of_map_snd [where f="\<lambda>p. p\<lparr>p_writable := False, p_configurable := False\<rparr>"])

lemma prop_get_freeze: "prop_get (freeze ob) k = prop_get ob k"
  by (simp add: prop_get_def map_of_freeze split: option.splits)

lemma define_value_get:
  "define_value k v ob = Inr ob' \<Longrightarrow>
   prop_get ob' k' = (if k' = k then v else prop_get ob k') \<and> extensible ob' = extensible ob"
  by (auto simp: define_value_def prop_get_def map_of_obj_set map_add_def split: option.splits if_splits)

lemma defineProperties_keep:
  "defineProperties ob kvs = Inr ob' \<Longrightarrow> k \<notin> fst ` set kvs \<Longrightarrow> prop_get ob' k = prop_get ob k"
proof (induction kvs arbitrary: ob)
  case Nil
  then show ?case by simp
next
  case (Cons kv kvs)
  obtain k0 v0 where kv: "kv = (k0, v0)" by (cases kv)
  from Cons.prems(1) kv obtain ob1 where d: "define_value k0 v0 ob = Inr ob1"
    and rest: "defineProperties ob1 kvs = Inr ob'"
    by (auto split: sum.splits)
  from Cons.IH [OF rest] Cons.prems(2) kv define_value_get [OF d, of k] show ?case
    by auto
qed

lemma defineProperties_get:
  "defineProperties ob kvs = Inr ob' \<Longrightarrow> distinct (map fst kvs) \<Longrightarrow> (k, v) \<in> set kvs \<Longrightarrow>
   prop_get ob' k = v"
proof (induction kvs arbitrary: ob)
  case Nil
  then show ?case by simp
next
  case (Cons kv kvs)
  obtain k0 v0 where kv: "kv = (k0, v0)" by (cases kv)
  from Cons.prems(1) kv obtain ob1 where d: "define_value k0 v0 ob = Inr ob1"
    and rest: "defineProperties ob1 kvs = Inr ob'"
    by (auto split: sum.splits)
  show ?case
  proof (cases "(k, v) = (k0, v0)")
    case True
    from Cons.prems(2) kv have "k0 \<notin> fst ` set kvs" by simp
    from defineProperties_keep [OF rest this] define_value_get [OF d, of k0] True
    show ?thesis by simp
  next
    case False
    with Cons.IH [OF rest] Cons.prems(2,3) kv show ?thesis by auto
  qed
qed

text \<open>Defining distinct new or configurable properties on an extensible object cannot fail.\<close>

lemma define_value_open:
  "extensible ob \<Longrightarrow> (\<forall>p. map_of (props ob) k = Some p \<longrightarrow> p_configurable p) \<Longrightarrow>
   \<exists>ob'. define_value k v ob = Inr ob' \<and> extensible ob'
      \<and> (\<forall>k'. k' \<noteq> k \<longrightarrow> map_of (props ob') k' = map_of (props ob) k')"
  by (auto simp: define_value_def map_of_obj_set map_add_def split: option.splits)

lemma defineProperties_open:
  "extensible ob \<Longrightarrow> distinct (map fst kvs) \<Longrightarrow>
   (\<forall>k \<in> fst ` set kvs. \<forall>p. map_of (props ob) k = Some p \<longrightarrow> p_configurable p) \<Longrightarrow>
   \<exists>ob'. defineProperties ob kvs = Inr ob'"
proof (induction kvs arbitrary: ob)
  case Nil
  show ?case by simp
next
  case (Cons kv kvs)
  obtain k0 v0 where kv: "kv = (k0, v0)" by (cases kv)
  from Cons.prems kv define_value_open [of ob k0 v0]
  obtain ob1 where d: "define_value k0 v0 ob = Inr ob1" and e: "extensible ob1"
    and o: "\<forall>k'. k' \<noteq> k0 \<longrightarrow> map_of (props ob1) k' = map_of (props ob) k'"
    by auto
  from Cons.prems kv o have "\<forall>k \<in> fst ` set kvs. \<forall>p. map_of (props ob1) k = Some p \<longrightarrow> p_configurable p"
    by (metis distinct.simps(2) fst_conv image_eqI list.set_intros(2) list.simps(9) set_map)
  from Cons.IH [OF e _ this] Cons.prems(2) d kv show ?case
    by simp
qed

lemma plain_object_open:
  "extensible (plain_object ob)" "map_of (props (plain_object ob)) k = Some p \<Longrightarrow> p_configurable p"
  by (auto simp: plain_object_def
      map_of_map_snd [where f="\<lambda>v. \<lparr>p_value = v, p_writable = True, p_enumerable = True,
                                  p_configurable = True\<rparr>"])

lemma mode_flags_distinct: "distinct (map fst (mode_flags outp))"
  by (simp add: mode_flags_def)

lemma defineProperties_mode_flags:
  "\<exists>flagged. defineProperties (plain_object ob) (mode_flags outp) = Inr flagged"
  by (rule defineProperties_open) (auto simp: plain_object_open mode_flags_distinct)

lemma own_property_read:
  "prop_get ob k = v \<Longrightarrow> v \<noteq> JUndefined \<Longrightarrow> read_property ob k = Inr v"
  by (auto simp: prop_get_def read_property_def split: option.splits)

lemma cleanEnv_frozen:
  "outcome (cleanEnv w st inputEnv userSpecs opts) = Inr ob \<Longrightarrow> isFrozen ob"
  by (auto simp: cleanEnv_def Let_def isFrozen_freeze split: sum.splits prod.splits option.splits)

lemma cleanEnv_final_store:
  "getEnv w st inputEnv opts = Inr (envRef, st1) \<Longrightarrow>
   final_store (cleanEnv w st inputEnv userSpecs opts) = st1"
  by (auto simp: cleanEnv_def Let_def split: sum.splits prod.splits option.splits)

lemma cleanEnv_result:
  assumes g: "getEnv w st inputEnv opts = Inr (envRef, st1)" and c: "cells st1 envRef = Some env"
    and v: "validateSpecs (cleanEnv_specs w userSpecs) env [] [] opts [] = Inr r"
    and ok: "outcome (cleanEnv w st inputEnv userSpecs opts) = Inr ob"
  shows "\<exists>flagged fo.
           defineProperties
             (plain_object (if opt_strict opts then v_output r else extend_obj env (v_output r)))
             (mode_flags (v_output r)) = Inr flagged
           \<and> (case opt_transformer opts of None \<Rightarrow> fo = flagged | Some t \<Rightarrow> t flagged = Inr fo)
           \<and> ob = freeze (if opt_strict opts then strictProxy fo env else fo)"
  using ok
  by (auto simp: cleanEnv_def g c v Let_def split: sum.splits option.splits)

section \<open>Resolving the raw value\<close>

text \<open>
  C6, as stated, fails: with \<^verbatim>\<open>NODE_ENV=test\<close>, which is the resolved mode, a spec that declares
  \<^verbatim>\<open>devDefault: undefined\<close> next to \<^verbatim>\<open>default: 'x'\<close> and has no environment entry resolves to
  the plain default \<open>'x'\<close>, not to the declared dev-default \<open>undefined\<close>.
\<close>

theorem getRawValue_undefined_devDefault_counterexample:
  "obj_get [(''NODE_ENV'', JStr ''test'')] ''FOO'' = JUndefined
   \<and> resolved_mode
        (cleanEnv_specs example_world
           [(''FOO'', empty_spec\<lparr>spec_default := Some (JStr ''x''), spec_devDefault := Some JUndefined\<rparr>)])
        [(''NODE_ENV'', JStr ''test'')] = Some (JStr ''test'')
   \<and> spec_devDefault (empty_spec\<lparr>spec_default := Some (JStr ''x''), spec_devDefault := Some JUndefined\<rparr>)
       = Some JUndefined
   \<and> getRawValue (empty_spec\<lparr>spec_default := Some (JStr ''x''), spec_devDefault := Some JUndefined\<rparr>)
        [(''NODE_ENV'', JStr ''test'')] ''FOO'' = JStr ''x''"
  by (simp add: resolved_mode_def validated_value_def clean_eval run_eval)

text \<open>
  The mode read by \<^verbatim>\<open>getDevDefault\<close> is \<^verbatim>\<open>env.NODE_ENV\<close> as it stands, not the mode the run
  resolves. The two differ when \<^verbatim>\<open>NODE_ENV\<close> is not set: the mode key then validates to its
  default \<open>"production"\<close>, and a dev-default is used all the same. The amended claim below
  says nothing about that case.
\<close>

lemma devDefault_without_NODE_ENV:
  "resolved_mode
      (cleanEnv_specs example_world
         [(''FOO'', empty_spec\<lparr>spec_default := Some (JStr ''p''), spec_devDefault := Some (JStr ''d'')\<rparr>)])
      [] = Some (JStr ''production'')
   \<and> getRawValue (empty_spec\<lparr>spec_default := Some (JStr ''p''), spec_devDefault := Some (JStr ''d'')\<rparr>)
        [] ''FOO'' = JStr ''d''"
  by (simp add: resolved_mode_def validated_value_def clean_eval run_eval)

text \<open>
  C6, amended: for a key with no environment entry (\<^verbatim>\<open>env[specKey] === undefined\<close>), in a
  run whose resolved mode is the value of \<^verbatim>\<open>env.NODE_ENV\<close> (the mode is set in the
  environment and validates to itself): when the resolved mode is not \<open>"production"\<close> and
  the Spec has an own \<^verbatim>\<open>devDefault\<close> whose value is not \<open>undefined\<close> (any other value, falsy
  or not), the raw value is the dev-default; when the Spec has no \<^verbatim>\<open>devDefault\<close> or its
  value is \<open>undefined\<close>, the plain default applies (\<open>undefined\<close> when none is declared); under
  the resolved mode \<open>"production"\<close> the plain default applies even if a dev-default exists.
\<close>

theorem getRawValue_absent:
  assumes absent: "obj_get env specKey = JUndefined"
    and mode: "resolved_mode specs env = Some (obj_get env ''NODE_ENV'')"
  shows "(\<forall>d. spec_devDefault spec = Some d \<and> d \<noteq> JUndefined
              \<and> resolved_mode specs env \<noteq> Some (JStr ''production'')
            \<longrightarrow> getRawValue spec env specKey = d)
       \<and> (spec_devDefault spec = None \<or> spec_devDefault spec = Some JUndefined
            \<longrightarrow> getRawValue spec env specKey = own_value (spec_default spec))
       \<and> (resolved_mode specs env = Some (JStr ''production'')
            \<longrightarrow> getRawValue spec env specKey = own_value (spec_default spec))"
  using assms
  by (auto simp: getRawValue_def getDevDefault_def strict_eq_def own_value_def Let_def)

theorem getRawValue_absent_witness:
  "resolved_mode (cleanEnv_specs example_world []) [(''NODE_ENV'', JStr ''test'')] = Some (JStr ''test'')
   \<and> getRawValue (empty_spec\<lparr>spec_default := Some (JStr ''x''), spec_devDefault := Some (JBool False)\<rparr>)
        [(''NODE_ENV'', JStr ''test'')] ''FOO'' = JBool False
   \<and> getRawValue (empty_spec\<lparr>spec_default := Some (JStr ''x'')\<rparr>)
        [(''NODE_ENV'', JStr ''test'')] ''FOO'' = JStr ''x''
   \<and> resolved_mode (cleanEnv_specs example_world []) [(''NODE_ENV'', JStr ''production'')]
       = Some (JStr ''production'')
   \<and> getRawValue (empty_spec\<lparr>spec_default := Some (JStr ''x''), spec_devDefault := Some (JBool False)\<rparr>)
        [(''NODE_ENV'', JStr ''production'')] ''FOO'' = JStr ''x''"
proof -
  let ?S = "cleanEnv_specs example_world []"
  let ?T = "[(''NODE_ENV'', JStr ''test'')]"
  let ?P = "[(''NODE_ENV'', JStr ''production'')]"
  let ?both = "empty_spec\<lparr>spec_default := Some (JStr ''x''), spec_devDefault := Some (JBool False)\<rparr>"
  let ?plain = "empty_spec\<lparr>spec_default := Some (JStr ''x'')\<rparr>"
  have a1: "obj_get ?T ''FOO'' = JUndefined" and a2: "obj_get ?P ''FOO'' = JUndefined"
    by (simp_all add: obj_get_def inherited_def object_prototype_def)
  have m1: "resolved_mode ?S ?T = Some (JStr ''test'')"
    and m2: "resolved_mode ?S ?P = Some (JStr ''production'')"
    by (simp_all add: resolved_mode_def validated_value_def clean_eval run_eval)
  have n1: "resolved_mode ?S ?T = Some (obj_get ?T ''NODE_ENV'')"
    and n2: "resolved_mode ?S ?P = Some (obj_get ?P ''NODE_ENV'')"
    by (simp_all add: m1 m2 obj_get_def)
  have f: "spec_devDefault ?both = Some (JBool False)" "spec_devDefault ?plain = None"
    "own_value (spec_default ?both) = JStr ''x''" "own_value (spec_default ?plain) = JStr ''x''"
    by (simp_all add: empty_spec_def own_value_def)
  from getRawValue_absent [OF a1 n1, of ?both] getRawValue_absent [OF a1 n1, of ?plain]
    getRawValue_absent [OF a2 n2, of ?both] m1 m2 f
  show ?thesis by simp
qed

section \<open>Deferred keys\<close>

text \<open>
  C10: a deferred key whose raw value validates is written into the output whatever its
  \<^verbatim>\<open>requiredWhen\<close> would return, and its \<^verbatim>\<open>requiredWhen\<close> is not called in that run.
\<close>

theorem deferred_success_written:
  assumes sp: "map_of specs k = Some sp" "spec_requiredWhen sp = Some rw"
    and ok: "attempt sp env k = Inr v"
  shows "(\<forall>r. validateSpecs specs env [] [] opts [] = Inr r \<longrightarrow> map_of (v_output r) k = Some v)
       \<and> (\<forall>outp. EvRequiredWhen k outp \<notin> set (run_trace (validateSpecs specs env [] [] opts [])))"
proof -
  note q = hasRequiredWhen_queue [OF sp]
  have never: "EvRequiredWhen k outp \<notin> set (trace_of (phase2 specs env opts s1))"
    if "phase1 specs env opts = Inr s1" for s1 outp
  proof
    assume "EvRequiredWhen k outp \<in> set (trace_of (phase2 specs env opts s1))"
    from rw_event_failed [OF this [unfolded phase2_def]] phase1_no_requiredWhen [of k outp specs env opts]
      that sp ok
    show False by auto
  qed
  show ?thesis
  proof (cases rule: validateSpecs_cases [of specs env opts])
    case (abort1 e tr)
    with phase1_no_requiredWhen [of k _ specs env opts] show ?thesis by simp
  next
    case (single s1)
    with phase1_state(2) [OF single(1)] q show ?thesis by simp
  next
    case (abort2 s1 e tr)
    with never [OF abort2(1)] show ?thesis by simp
  next
    case (double s1 s2)
    from forEach_keys_state [OF double(3) [unfolded phase2_def]]
    have "s_output s2 = foldl (settle specs env) (s_output s1) (s_deferKeys s1)"
      by (simp add: processed_def)
    with q phase1_state(2) [OF double(1)] sp ok have "map_of (s_output s2) k = Some v"
      by (simp add: map_of_foldl_settle validated_value_def)
    with never [OF double(1)] double show ?thesis by simp
  qed
qed

theorem deferred_success_written_witness:
  "attempt (empty_spec\<lparr>spec_parse := ParseFn Inr, spec_requiredWhen := Some (\<lambda>_. Inr (JBool False))\<rparr>)
      [(''PORT'', JStr ''80'')] ''PORT'' = Inr (JStr ''80'')
   \<and> returns_falsy ((\<lambda>_. Inr (JBool False)) [])
   \<and> (\<exists>r. validateSpecs
            [(''PORT'', empty_spec\<lparr>spec_parse := ParseFn Inr, spec_requiredWhen := Some (\<lambda>_. Inr (JBool False))\<rparr>)]
            [(''PORT'', JStr ''80'')] [] [] empty_options [] = Inr r
          \<and> map_of (v_output r) ''PORT'' = Some (JStr ''80''))
   \<and> EvRequiredWhen ''PORT'' [] \<notin> set (run_trace (validateSpecs
            [(''PORT'', empty_spec\<lparr>spec_parse := ParseFn Inr, spec_requiredWhen := Some (\<lambda>_. Inr (JBool False))\<rparr>)]
            [(''PORT'', JStr ''80'')] [] [] empty_options []))"
proof -
  let ?sp = "empty_spec\<lparr>spec_parse := ParseFn Inr, spec_requiredWhen := Some (\<lambda>_. Inr (JBool False))\<rparr>"
  have h1: "map_of [(''PORT'', ?sp)] ''PORT'' = Some ?sp"
    by simp
  have h2: "spec_requiredWhen ?sp = Some (\<lambda>_. Inr (JBool False))"
    by simp
  have h3: "attempt ?sp [(''PORT'', JStr ''80'')] ''PORT'' = Inr (JStr ''80'')"
    by (simp add: run_eval)
  have run: "validateSpecs [(''PORT'', ?sp)] [(''PORT'', JStr ''80'')] [] [] empty_options []
      = Inr \<lparr>v_output = [(''PORT'', JStr ''80'')], v_errors = [], v_trace = [EvValidate ''PORT'']\<rparr>"
    by (simp add: run_eval)
  from deferred_success_written [OF h1 h2 h3, of empty_options] h3 run
  show ?thesis by simp
qed

section \<open>What a deferred key sees\<close>

text \<open>
  C4, as stated, fails: the queue is processed in one loop over one output object. With
  two deferred keys \<open>A\<close> and \<open>B\<close>, \<open>A\<close> set in the environment and \<open>B\<close> missing, the
  \<^verbatim>\<open>requiredWhen\<close> of \<open>B\<close> is called with an output that holds the value validated for \<open>A\<close>
  in the same run.
\<close>

theorem deferred_keys_not_isolated_counterexample:
  "validateSpecs
      [(''A'', empty_spec\<lparr>spec_parse := ParseFn Inr, spec_requiredWhen := Some (\<lambda>_. Inr (JBool True))\<rparr>),
       (''B'', empty_spec\<lparr>spec_parse := ParseFn Inr, spec_requiredWhen := Some (\<lambda>_. Inr (JBool False))\<rparr>)]
      [(''A'', JStr ''x'')] [] [] empty_options []
     = Inr \<lparr>v_output = [(''A'', JStr ''x'')], v_errors = [],
            v_trace = [EvValidate ''A'', EvValidate ''B'', EvRequiredWhen ''B'' [(''A'', JStr ''x'')]]\<rparr>
   \<and> hasRequiredWhen
      [(''A'', empty_spec\<lparr>spec_parse := ParseFn Inr, spec_requiredWhen := Some (\<lambda>_. Inr (JBool True))\<rparr>),
       (''B'', empty_spec\<lparr>spec_parse := ParseFn Inr, spec_requiredWhen := Some (\<lambda>_. Inr (JBool False))\<rparr>)] ''A''
   \<and> hasRequiredWhen
      [(''A'', empty_spec\<lparr>spec_parse := ParseFn Inr, spec_requiredWhen := Some (\<lambda>_. Inr (JBool True))\<rparr>),
       (''B'', empty_spec\<lparr>spec_parse := ParseFn Inr, spec_requiredWhen := Some (\<lambda>_. Inr (JBool False))\<rparr>)] ''B''
   \<and> map_of [(''A'', JStr ''x'')] ''A'' = Some (JStr ''x'')"
  by (simp add: run_eval hasRequiredWhen_def)

text \<open>
  C4, amended: in a well-formed spec map, the output passed to the \<^verbatim>\<open>requiredWhen\<close> of a
  deferred key \<open>B\<close> holds exactly the validated values of the keys that precede \<open>B\<close> in the
  order of validation (every key without \<^verbatim>\<open>requiredWhen\<close>, then the deferred keys queued
  before \<open>B\<close>); it never holds a value of \<open>B\<close> itself or of a deferred key queued after \<open>B\<close>.
\<close>

theorem requiredWhen_sees_earlier_keys:
  assumes dist: "distinct (map fst specs)"
    and ev: "EvRequiredWhen k outp \<in> set (run_trace (validateSpecs specs env [] [] opts []))"
  shows "\<exists>pre post. validation_order specs = pre @ k # post
           \<and> (\<forall>k'. map_of outp k' = (if k' \<in> set pre then validated_value specs env k' else None))
           \<and> map_of outp k = None
           \<and> (\<forall>k' \<in> set post. map_of outp k' = None)"
proof -
  from requiredWhen_argument [OF ev] obtain pre post
    where q: "filter (hasRequiredWhen specs) (object_keys specs) = pre @ k # post"
      and o: "outp = foldl (settle specs env) []
                (filter (\<lambda>k. \<not> hasRequiredWhen specs k) (object_keys specs) @ pre)"
    by blast
  let ?pre = "filter (\<lambda>k. \<not> hasRequiredWhen specs k) (object_keys specs) @ pre"
  from q have vo: "validation_order specs = ?pre @ k # post"
    by (simp add: validation_order_def)
  from o have m: "map_of outp k' = (if k' \<in> set ?pre then validated_value specs env k' else None)" for k'
    by (simp only: map_of_foldl_settle) auto
  from distinct_validation_order [OF dist] vo
  have n1: "k \<notin> set ?pre" and n2: "\<forall>k' \<in> set post. k' \<notin> set ?pre"
    by auto
  from m [of k] have own: "map_of outp k = None"
    by (simp only: n1 if_False)
  have later: "\<forall>k' \<in> set post. map_of outp k' = None"
  proof
    fix k'
    assume "k' \<in> set post"
    with n2 have "k' \<notin> set ?pre" by blast
    then show "map_of outp k' = None" by (simp only: m [of k'] if_False)
  qed
  from vo m own later show ?thesis by blast
qed

theorem requiredWhen_sees_earlier_keys_witness:
  "EvRequiredWhen ''B'' [(''A'', JStr ''x'')] \<in> set (run_trace (validateSpecs
      [(''A'', empty_spec\<lparr>spec_parse := ParseFn Inr, spec_requiredWhen := Some (\<lambda>_. Inr (JBool True))\<rparr>),
       (''B'', empty_spec\<lparr>spec_parse := ParseFn Inr, spec_requiredWhen := Some (\<lambda>_. Inr (JBool False))\<rparr>)]
      [(''A'', JStr ''x'')] [] [] empty_options []))
   \<and> (\<exists>pre post. validation_order
      [(''A'', empty_spec\<lparr>spec_parse := ParseFn Inr, spec_requiredWhen := Some (\<lambda>_. Inr (JBool True))\<rparr>),
       (''B'', empty_spec\<lparr>spec_parse := ParseFn Inr, spec_requiredWhen := Some (\<lambda>_. Inr (JBool False))\<rparr>)]
        = pre @ ''B'' # post)
   \<and> map_of [(''A'', JStr ''x'')] ''B'' = None"
proof -
  let ?specs = "[(''A'', empty_spec\<lparr>spec_parse := ParseFn Inr, spec_requiredWhen := Some (\<lambda>_. Inr (JBool True))\<rparr>),
       (''B'', empty_spec\<lparr>spec_parse := ParseFn Inr, spec_requiredWhen := Some (\<lambda>_. Inr (JBool False))\<rparr>)]"
  have d: "distinct (map fst ?specs)"
    by simp
  have ev: "EvRequiredWhen ''B'' [(''A'', JStr ''x'')] \<in> set (run_trace (validateSpecs
      ?specs [(''A'', JStr ''x'')] [] [] empty_options []))"
    by (simp add: run_eval)
  from requiredWhen_sees_earlier_keys [OF d ev] ev show ?thesis
    by blast
qed

section \<open>Missing deferred keys\<close>



section \<open>Order of validation\<close>

text \<open>
  C5: \<^verbatim>\<open>validateSpecs\<close> is a total function that makes at most one recursive call: its
  result is that of the first pass followed, when keys were queued, by one pass over the
  queue. The \<^verbatim>\<open>try\<close> block is entered for the keys without \<^verbatim>\<open>requiredWhen\<close> in the order of
  \<^verbatim>\<open>Object.keys\<close> and then for the queued keys, each key of a well-formed map at most once;
  a run that returns validates every key exactly once, the keys with \<^verbatim>\<open>requiredWhen\<close> after
  all the others. Whenever a \<^verbatim>\<open>requiredWhen\<close> is called, the output it receives holds the
  value of every key without \<^verbatim>\<open>requiredWhen\<close> that validated.
\<close>

theorem validateSpecs_two_passes:
  "validateSpecs specs env [] [] opts [] =
     (case phase1 specs env opts of
        Inl x \<Rightarrow> Inl x
      | Inr s1 \<Rightarrow>
          if s_deferKeys s1 = []
          then Inr \<lparr>v_output = s_output s1, v_errors = s_errors s1, v_trace = s_trace s1\<rparr>
          else (case phase2 specs env opts s1 of
                  Inl x \<Rightarrow> Inl x
                | Inr s2 \<Rightarrow> Inr \<lparr>v_output = s_output s2, v_errors = s_errors s2, v_trace = s_trace s2\<rparr>))
   \<and> prefix (filter is_validate (run_trace (validateSpecs specs env [] [] opts [])))
            (map EvValidate (validation_order specs))
   \<and> (\<forall>r. validateSpecs specs env [] [] opts [] = Inr r
         \<longrightarrow> filter is_validate (v_trace r) = map EvValidate (validation_order specs))
   \<and> (distinct (map fst specs) \<longrightarrow> distinct (validation_order specs))
   \<and> (\<forall>k outp k' v. EvRequiredWhen k outp \<in> set (run_trace (validateSpecs specs env [] [] opts []))
         \<longrightarrow> k' \<in> set (object_keys specs) \<longrightarrow> \<not> hasRequiredWhen specs k'
         \<longrightarrow> validated_value specs env k' = Some v
         \<longrightarrow> map_of outp k' = Some v)"
proof -
  have eq: "validateSpecs specs env [] [] opts [] =
     (case phase1 specs env opts of
        Inl x \<Rightarrow> Inl x
      | Inr s1 \<Rightarrow>
          if s_deferKeys s1 = []
          then Inr \<lparr>v_output = s_output s1, v_errors = s_errors s1, v_trace = s_trace s1\<rparr>
          else (case phase2 specs env opts s1 of
                  Inl x \<Rightarrow> Inl x
                | Inr s2 \<Rightarrow> Inr \<lparr>v_output = s_output s2, v_errors = s_errors s2, v_trace = s_trace s2\<rparr>))"
    by (cases rule: validateSpecs_cases [of specs env opts]) simp_all
  have seen: "map_of outp k' = Some v"
    if "EvRequiredWhen k outp \<in> set (run_trace (validateSpecs specs env [] [] opts []))"
      and "k' \<in> set (object_keys specs)" and "\<not> hasRequiredWhen specs k'"
      and "validated_value specs env k' = Some v" for k outp k' v
    using requiredWhen_argument [OF that(1)] that(2-4)
    by (auto simp: map_of_foldl_settle)
  from eq run_validate_trace [of specs env opts] distinct_validation_order [of specs] seen
  show ?thesis by blast
qed

theorem validateSpecs_two_passes_witness:
  "validateSpecs
      [(''B'', empty_spec\<lparr>spec_parse := ParseFn Inr, spec_requiredWhen := Some (\<lambda>_. Inr (JBool True))\<rparr>),
       (''A'', empty_spec\<lparr>spec_parse := ParseFn Inr\<rparr>)]
      [(''A'', JStr ''1'')] [] [] empty_options []
     = Inr \<lparr>v_output = [(''A'', JStr ''1'')],
            v_errors = [(''B'', EnvMissingError ''undefined'')],
            v_trace = [EvValidate ''A'', EvValidate ''B'', EvRequiredWhen ''B'' [(''A'', JStr ''1'')]]\<rparr>
   \<and> validation_order
      [(''B'', empty_spec\<lparr>spec_parse := ParseFn Inr, spec_requiredWhen := Some (\<lambda>_. Inr (JBool True))\<rparr>),
       (''A'', empty_spec\<lparr>spec_parse := ParseFn Inr\<rparr>)] = [''A'', ''B'']
   \<and> distinct (validation_order
      [(''B'', empty_spec\<lparr>spec_parse := ParseFn Inr, spec_requiredWhen := Some (\<lambda>_. Inr (JBool True))\<rparr>),
       (''A'', empty_spec\<lparr>spec_parse := ParseFn Inr\<rparr>)])
   \<and> validated_value
      [(''B'', empty_spec\<lparr>spec_parse := ParseFn Inr, spec_requiredWhen := Some (\<lambda>_. Inr (JBool True))\<rparr>),
       (''A'', empty_spec\<lparr>spec_parse := ParseFn Inr\<rparr>)]
      [(''A'', JStr ''1'')] ''A'' = Some (JStr ''1'')
   \<and> map_of [(''A'', JStr ''1'')] ''A'' = Some (JStr ''1'')"
proof -
  let ?specs = "[(''B'', empty_spec\<lparr>spec_parse := ParseFn Inr, spec_requiredWhen := Some (\<lambda>_. Inr (JBool True))\<rparr>),
       (''A'', empty_spec\<lparr>spec_parse := ParseFn Inr\<rparr>)]"
  let ?env = "[(''A'', JStr ''1'')]"
  have run: "validateSpecs ?specs ?env [] [] empty_options []
     = Inr \<lparr>v_output = [(''A'', JStr ''1'')],
            v_errors = [(''B'', EnvMissingError ''undefined'')],
            v_trace = [EvValidate ''A'', EvValidate ''B'', EvRequiredWhen ''B'' [(''A'', JStr ''1'')]]\<rparr>"
    by (simp add: run_eval)
  have d: "distinct (map fst ?specs)"
    by simp
  have k: "''A'' \<in> set (object_keys ?specs)" "\<not> hasRequiredWhen ?specs ''A''"
    by (simp_all add: run_eval hasRequiredWhen_def)
  have v: "validated_value ?specs ?env ''A'' = Some (JStr ''1'')"
    by (simp add: validated_value_def run_eval)
  have o: "validation_order ?specs = [''A'', ''B'']"
    by (simp add: validation_order_def hasRequiredWhen_def run_eval)
  from validateSpecs_two_passes [of ?specs ?env empty_options] run d k v o
  show ?thesis by simp
qed

section \<open>Values equal to the default\<close>

text \<open>
  C7 does not hold of the code. \<^verbatim>\<open>usingFalsyDefault\<close>, whose comment says that default
  values can be anything falsy without triggering validation errors, is consulted only when
  the raw value is \<open>undefined\<close>. The default \<open>null\<close> is not \<open>undefined\<close>: it goes through
  \<^verbatim>\<open>validateVar\<close>, where \<^verbatim>\<open>value == null\<close> rejects it. Here the raw value strictly equals
  the declared default \<open>null\<close>, \<^verbatim>\<open>usingFalsyDefault\<close> would accept it, and validation raises
  an error: \<^verbatim>\<open>cleanEnv\<close> throws under a \<open>null\<close> reporter and the key gets no output.
\<close>

theorem null_default_rejected:
  "getRawValue (empty_spec\<lparr>spec_parse := ParseFn Inr, spec_default := Some JNull\<rparr>) [] ''FOO'' = JNull
   \<and> strict_eq (own_value (spec_default (empty_spec\<lparr>spec_parse := ParseFn Inr, spec_default := Some JNull\<rparr>)))
        (getRawValue (empty_spec\<lparr>spec_parse := ParseFn Inr, spec_default := Some JNull\<rparr>) [] ''FOO'')
   \<and> usingFalsyDefault (empty_spec\<lparr>spec_parse := ParseFn Inr, spec_default := Some JNull\<rparr>) [] JNull
   \<and> attempt (empty_spec\<lparr>spec_parse := ParseFn Inr, spec_default := Some JNull\<rparr>) [] ''FOO''
       = Inl (EnvError (InvalidValue ''FOO''))
   \<and> validateSpecs [(''FOO'', empty_spec\<lparr>spec_parse := ParseFn Inr, spec_default := Some JNull\<rparr>)]
        [] [] [] empty_options []
       = Inr \<lparr>v_output = [], v_errors = [(''FOO'', EnvError (InvalidValue ''FOO''))],
              v_trace = [EvValidate ''FOO'']\<rparr>
   \<and> outcome (cleanEnv example_world \<lparr>cells = Map.empty(0 \<mapsto> []), fresh = 1\<rparr> 0
        [(''FOO'', empty_spec\<lparr>spec_parse := ParseFn Inr, spec_default := Some JNull\<rparr>)]
        (empty_options\<lparr>opt_dotEnvPath := PathNull, opt_reporter := ReporterNull\<rparr>))
       = Inl (EnvError (InvalidValue ''FOO''))"
  by (simp add: clean_eval run_eval)

section \<open>Malformed specs\<close>




section \<open>Propagation of errors\<close>

text \<open>
  C1 does not hold of the code. \<^verbatim>\<open>errors\<close> is a fresh object in every call of
  \<^verbatim>\<open>validateSpecs\<close>, and the recursive call made for the queued keys returns its own, while
  \<^verbatim>\<open>output\<close> is handed on to it. As soon as one key has a \<^verbatim>\<open>requiredWhen\<close>, the errors
  recorded in the first pass are dropped. Here \<open>A\<close> is missing and has no \<^verbatim>\<open>requiredWhen\<close>;
  when \<open>B\<close> has none either, the error of \<open>A\<close> is in the error map; when \<open>B\<close> has one, the
  error map returned is empty, the reporter is called with an empty map, and with the
  default reporter \<^verbatim>\<open>cleanEnv\<close> returns an object without \<open>A\<close>.
\<close>

theorem first_pass_errors_dropped:
  "attempt (empty_spec\<lparr>spec_parse := ParseFn Inr\<rparr>) [(''B'', JStr ''x'')] ''A''
     = Inl (EnvMissingError ''undefined'')
   \<and> validateSpecs
        [(''A'', empty_spec\<lparr>spec_parse := ParseFn Inr\<rparr>), (''B'', empty_spec\<lparr>spec_parse := ParseFn Inr\<rparr>)]
        [(''B'', JStr ''x'')] [] [] empty_options []
     = Inr \<lparr>v_output = [(''B'', JStr ''x'')], v_errors = [(''A'', EnvMissingError ''undefined'')],
            v_trace = [EvValidate ''A'', EvValidate ''B'']\<rparr>
   \<and> validateSpecs
        [(''A'', empty_spec\<lparr>spec_parse := ParseFn Inr\<rparr>),
         (''B'', empty_spec\<lparr>spec_parse := ParseFn Inr, spec_requiredWhen := Some (\<lambda>_. Inr (JBool True))\<rparr>)]
        [(''B'', JStr ''x'')] [] [] empty_options []
     = Inr \<lparr>v_output = [(''B'', JStr ''x'')], v_errors = [],
            v_trace = [EvValidate ''A'', EvValidate ''B'']\<rparr>
   \<and> List.map_filter reported_errors (events (cleanEnv example_world
        \<lparr>cells = Map.empty(0 \<mapsto> [(''B'', JStr ''x'')]), fresh = 1\<rparr> 0
        [(''A'', empty_spec\<lparr>spec_parse := ParseFn Inr\<rparr>),
         (''B'', empty_spec\<lparr>spec_parse := ParseFn Inr, spec_requiredWhen := Some (\<lambda>_. Inr (JBool True))\<rparr>)]
        (empty_options\<lparr>opt_dotEnvPath := PathNull, opt_reporter := ReporterFn (\<lambda>_ _. None)\<rparr>)))
     = [[]]
   \<and> (case outcome (cleanEnv example_world
        \<lparr>cells = Map.empty(0 \<mapsto> [(''B'', JStr ''x'')]), fresh = 1\<rparr> 0
        [(''A'', empty_spec\<lparr>spec_parse := ParseFn Inr\<rparr>),
         (''B'', empty_spec\<lparr>spec_parse := ParseFn Inr, spec_requiredWhen := Some (\<lambda>_. Inr (JBool True))\<rparr>)]
        (empty_options\<lparr>opt_dotEnvPath := PathNull\<rparr>)) of
         Inl _ \<Rightarrow> False
       | Inr ob \<Rightarrow> read_property ob ''A'' = Inr JUndefined \<and> read_property ob ''B'' = Inr (JStr ''x''))"
  by (simp add: clean_eval run_eval List.map_filter_simps)

section \<open>The caller's environment\<close>

text \<open>
  When a dotenv file is read, \<^verbatim>\<open>getEnv\<close> works on a copy and the caller's object keeps
  its properties.
\<close>

lemma getEnv_copy_keeps_input:
  assumes "opt_dotEnvPath opts = Path path" and "readDotEnv w path = FileContents parsed"
    and "inputEnv \<noteq> fresh st" and "getEnv w st inputEnv opts = Inr (envRef, st1)"
  shows "cells st1 inputEnv = cells st inputEnv"
  using assms
  by (auto simp: getEnv_def extendWithDotEnv_def alloc_def split: if_splits)

text \<open>
  C8 does not hold of the code: with \<^verbatim>\<open>dotEnvPath: null\<close> (and likewise when the file does
  not exist) \<^verbatim>\<open>env\<close> is the caller's object itself, and \<^verbatim>\<open>delete env.NODE_ENV\<close> removes
  the caller's empty \<^verbatim>\<open>NODE_ENV\<close>. After the call the caller's object has lost that
  key, whatever the spec map and the collaborators are.
\<close>

theorem cleanEnv_deletes_callers_NODE_ENV:
  "cells (final_store (cleanEnv w
      \<lparr>cells = Map.empty(0 \<mapsto> [(''NODE_ENV'', JStr []), (''FOO'', JStr ''x'')]), fresh = 1\<rparr> 0
      userSpecs (empty_options\<lparr>opt_dotEnvPath := PathNull\<rparr>))) 0
     = Some [(''FOO'', JStr ''x'')]
   \<and> cells (final_store (cleanEnv example_world
      \<lparr>cells = Map.empty(0 \<mapsto> [(''NODE_ENV'', JStr []), (''FOO'', JStr ''x'')]), fresh = 1\<rparr> 0
      userSpecs empty_options)) 0
     = Some [(''FOO'', JStr ''x'')]"
proof -
  let ?st = "\<lparr>cells = Map.empty(0 \<mapsto> [(''NODE_ENV'', JStr []), (''FOO'', JStr ''x'')]), fresh = 1\<rparr>"
  have "getEnv w ?st 0 (empty_options\<lparr>opt_dotEnvPath := PathNull\<rparr>)
      = Inr (0, ?st\<lparr>cells := (cells ?st)(0 \<mapsto> [(''FOO'', JStr ''x'')])\<rparr>)"
    by (simp add: getEnv_def obj_get_def obj_delete_def empty_options_def)
  from cleanEnv_final_store [OF this]
  have null_path: "cells (final_store (cleanEnv w ?st 0 userSpecs (empty_options\<lparr>opt_dotEnvPath := PathNull\<rparr>))) 0
      = Some [(''FOO'', JStr ''x'')]"
    by simp
  have "getEnv example_world ?st 0 empty_options
      = Inr (0, ?st\<lparr>cells := (cells ?st)(0 \<mapsto> [(''FOO'', JStr ''x'')])\<rparr>)"
    by (simp add: getEnv_def extendWithDotEnv_def example_world_def obj_get_def obj_delete_def
        empty_options_def)
  from cleanEnv_final_store [OF this]
  have no_file: "cells (final_store (cleanEnv example_world ?st 0 userSpecs empty_options)) 0
      = Some [(''FOO'', JStr ''x'')]"
    by simp
  from null_path no_file show ?thesis
    by simp
qed

section \<open>Mode flags and freezing\<close>

text \<open>
  C9, as stated, fails: the flags are defined before the transformer runs, and the
  object returned is the transformer's result. A transformer that copies the enumerable
  properties (as \<^verbatim>\<open>env => ({ ...env })\<close> does) returns an object without the flags, which
  are not enumerable: the validated mode is \<open>"test"\<close> and \<^verbatim>\<open>isTest\<close> of the returned object
  is \<open>undefined\<close>.
\<close>

theorem transformer_drops_flags_counterexample:
  "validateSpecs (cleanEnv_specs example_world []) [(''NODE_ENV'', JStr ''test'')] [] []
      (empty_options\<lparr>opt_dotEnvPath := PathNull,
         opt_transformer := Some (\<lambda>ob. Inr \<lparr>props = filter (\<lambda>kp. p_enumerable (snd kp)) (props ob),
                                             extensible = True, guarded = False\<rparr>)\<rparr>) []
     = Inr \<lparr>v_output = [(''NODE_ENV'', JStr ''test'')], v_errors = [], v_trace = [EvValidate ''NODE_ENV'']\<rparr>
   \<and> outcome (cleanEnv example_world
        \<lparr>cells = Map.empty(0 \<mapsto> [(''NODE_ENV'', JStr ''test'')]), fresh = 1\<rparr> 0 []
        (empty_options\<lparr>opt_dotEnvPath := PathNull,
           opt_transformer := Some (\<lambda>ob. Inr \<lparr>props = filter (\<lambda>kp. p_enumerable (snd kp)) (props ob),
                                               extensible = True, guarded = False\<rparr>)\<rparr>))
     = Inr \<lparr>props = [(''NODE_ENV'', \<lparr>p_value = JStr ''test'', p_writable = False,
                                     p_enumerable = True, p_configurable = False\<rparr>)],
            extensible = False, guarded = False\<rparr>
   \<and> read_property \<lparr>props = [(''NODE_ENV'', \<lparr>p_value = JStr ''test'', p_writable = False,
                                     p_enumerable = True, p_configurable = False\<rparr>)],
            extensible = False, guarded = False\<rparr> ''isTest'' = Inr JUndefined"
  by (simp add: clean_eval run_eval inherited_def object_prototype_def)

text \<open>
  C9, amended: when the validated mode key's value is \<open>"test"\<close> and the transformer, if one
  is configured, hands on the five flag properties as it found them, the object returned
  by a successful call has \<^verbatim>\<open>isTest === true\<close> and \<^verbatim>\<open>isDev\<close>, \<^verbatim>\<open>isDevelopment\<close>, \<^verbatim>\<open>isProd\<close>,
  \<^verbatim>\<open>isProduction\<close> all \<open>false\<close>, in strict mode as well, and no assignment to a property of
  it succeeds. Whatever the options, the object returned by a successful call is frozen
  and rejects every assignment, whether or not errors were reported.
\<close>

theorem mode_flags_test:
  assumes g: "getEnv w st inputEnv opts = Inr (envRef, st1)" and c: "cells st1 envRef = Some env"
    and v: "validateSpecs (cleanEnv_specs w userSpecs) env [] [] opts [] = Inr r"
    and mode: "obj_get (v_output r) ''NODE_ENV'' = JStr ''test''"
    and keeps: "\<forall>t flagged fo. opt_transformer opts = Some t \<longrightarrow> t flagged = Inr fo
         \<longrightarrow> (\<forall>k \<in> fst ` set (mode_flags (v_output r)). map_of (props fo) k = map_of (props flagged) k)"
    and ok: "outcome (cleanEnv w st inputEnv userSpecs opts) = Inr ob"
  shows "read_property ob ''isTest'' = Inr (JBool True)
       \<and> read_property ob ''isDev'' = Inr (JBool False)
       \<and> read_property ob ''isDevelopment'' = Inr (JBool False)
       \<and> read_property ob ''isProd'' = Inr (JBool False)
       \<and> read_property ob ''isProduction'' = Inr (JBool False)
       \<and> (\<forall>k x. assign k x ob = None)
       \<and> (\<forall>w' st' inputEnv' userSpecs' opts' ob'.
             outcome (cleanEnv w' st' inputEnv' userSpecs' opts') = Inr ob'
             \<longrightarrow> isFrozen ob' \<and> (\<forall>k x. assign k x ob' = None))"
proof -
  from cleanEnv_result [OF g c v ok] obtain flagged fo
    where d: "defineProperties
                (plain_object (if opt_strict opts then v_output r else extend_obj env (v_output r)))
                (mode_flags (v_output r)) = Inr flagged"
      and t: "case opt_transformer opts of None \<Rightarrow> fo = flagged | Some t \<Rightarrow> t flagged = Inr fo"
      and ob: "ob = freeze (if opt_strict opts then strictProxy fo env else fo)"
    by blast
  have same: "map_of (props fo) k = map_of (props flagged) k"
    if "k \<in> fst ` set (mode_flags (v_output r))" for k
  proof (cases "opt_transformer opts")
    case None
    with t show ?thesis by simp
  next
    case (Some f)
    with t have "f flagged = Inr fo" by simp
    from keeps [rule_format, OF Some this that] show ?thesis .
  qed
  have flag: "read_property ob k = Inr (JBool b)" if kb: "(k, JBool b) \<in> set (mode_flags (v_output r))" for k b
  proof -
    from defineProperties_get [OF d mode_flags_distinct kb]
    have "prop_get flagged k = JBool b" .
    moreover from kb have "k \<in> fst ` set (mode_flags (v_output r))"
      by (rule image_eqI [where x="(k, JBool b)", rotated]) simp
    from same [OF this] have "map_of (props fo) k = map_of (props flagged) k" .
    ultimately have "prop_get fo k = JBool b"
      by (simp add: prop_get_def)
    then have "prop_get (if opt_strict opts then strictProxy fo env else fo) k = JBool b"
      by (simp add: prop_get_def strictProxy_def)
    then have "prop_get ob k = JBool b"
      by (simp add: ob prop_get_freeze)
    then show ?thesis
      by (rule own_property_read) simp
  qed
  have all: "isFrozen ob' \<and> (\<forall>k x. assign k x ob' = None)"
    if "outcome (cleanEnv w' st' inputEnv' userSpecs' opts') = Inr ob'"
    for w' st' inputEnv' userSpecs' opts' ob'
    using cleanEnv_frozen [OF that] by (simp add: isFrozen_assign)
  from all [OF ok] have "\<forall>k x. assign k x ob = None"
    by simp
  moreover have "read_property ob ''isTest'' = Inr (JBool True)"
    "read_property ob ''isDev'' = Inr (JBool False)"
    "read_property ob ''isDevelopment'' = Inr (JBool False)"
    "read_property ob ''isProd'' = Inr (JBool False)"
    "read_property ob ''isProduction'' = Inr (JBool False)"
    by (rule flag, simp add: mode_flags_def mode strict_eq_def)+
  ultimately show ?thesis
    using all by blast
qed

theorem mode_flags_test_witness:
  "validateSpecs (cleanEnv_specs example_world [(''FOO'', empty_spec\<lparr>spec_parse := ParseFn Inr\<rparr>)])
      [(''NODE_ENV'', JStr ''test''), (''isTest'', JStr ''no'')] [] []
      (empty_options\<lparr>opt_dotEnvPath := PathNull, opt_strict := True,
                      opt_reporter := ReporterFn (\<lambda>_ _. None)\<rparr>) []
     = Inr \<lparr>v_output = [(''NODE_ENV'', JStr ''test'')],
            v_errors = [(''FOO'', EnvMissingError ''undefined'')],
            v_trace = [EvValidate ''NODE_ENV'', EvValidate ''FOO'']\<rparr>
   \<and> outcome (cleanEnv example_world
        \<lparr>cells = Map.empty(0 \<mapsto> [(''NODE_ENV'', JStr ''test''), (''isTest'', JStr ''no'')]), fresh = 1\<rparr> 0
        [(''FOO'', empty_spec\<lparr>spec_parse := ParseFn Inr\<rparr>)]
        (empty_options\<lparr>opt_dotEnvPath := PathNull, opt_strict := True,
                        opt_reporter := ReporterFn (\<lambda>_ _. None)\<rparr>))
     = Inr \<lparr>props =
              [(''NODE_ENV'', \<lparr>p_value = JStr ''test'', p_writable = False,
                               p_enumerable = True, p_configurable = False\<rparr>),
               (''isDevelopment'', \<lparr>p_value = JBool False, p_writable = False,
                                    p_enumerable = False, p_configurable = False\<rparr>),
               (''isDev'', \<lparr>p_value = JBool False, p_writable = False,
                            p_enumerable = False, p_configurable = False\<rparr>),
               (''isProduction'', \<lparr>p_value = JBool False, p_writable = False,
                                   p_enumerable = False, p_configurable = False\<rparr>),
               (''isProd'', \<lparr>p_value = JBool False, p_writable = False,
                             p_enumerable = False, p_configurable = False\<rparr>),
               (''isTest'', \<lparr>p_value = JBool True, p_writable = False,
                             p_enumerable = False, p_configurable = False\<rparr>)],
            extensible = False, guarded = True\<rparr>
   \<and> (\<exists>ob. outcome (cleanEnv example_world
        \<lparr>cells = Map.empty(0 \<mapsto> [(''NODE_ENV'', JStr ''test''), (''isTest'', JStr ''no'')]), fresh = 1\<rparr> 0
        [] (empty_options\<lparr>opt_dotEnvPath := PathNull, opt_transformer := Some (\<lambda>ob. Inr ob)\<rparr>))
          = Inr ob
        \<and> read_property ob ''isTest'' = Inr (JBool True)
        \<and> read_property ob ''isProd'' = Inr (JBool False)
        \<and> assign ''isTest'' (JBool False) ob = None
        \<and> isFrozen ob)"
proof -
  let ?E = "[(''NODE_ENV'', JStr ''test''), (''isTest'', JStr ''no'')]"
  let ?st = "\<lparr>cells = Map.empty(0 \<mapsto> ?E), fresh = 1\<rparr>"
  let ?S = "[(''FOO'', empty_spec\<lparr>spec_parse := ParseFn Inr\<rparr>)]"
  let ?o = "empty_options\<lparr>opt_dotEnvPath := PathNull, opt_strict := True,
                      opt_reporter := ReporterFn (\<lambda>_ _. None)\<rparr>"
  let ?d = "empty_options\<lparr>opt_dotEnvPath := PathNull, opt_transformer := Some (\<lambda>ob. Inr ob)\<rparr>"
  let ?r = "\<lparr>v_output = [(''NODE_ENV'', JStr ''test'')],
               v_errors = [(''FOO'', EnvMissingError ''undefined'')],
               v_trace = [EvValidate ''NODE_ENV'', EvValidate ''FOO'']\<rparr>"
  let ?r' = "\<lparr>v_output = [(''NODE_ENV'', JStr ''test'')], v_errors = [],
               v_trace = [EvValidate ''NODE_ENV'']\<rparr>"
  have g: "getEnv example_world ?st 0 ?o = Inr (0, ?st)" "getEnv example_world ?st 0 ?d = Inr (0, ?st)"
    by (simp_all add: clean_eval run_eval)
  have c: "cells ?st 0 = Some ?E"
    by simp
  have v: "validateSpecs (cleanEnv_specs example_world ?S) ?E [] [] ?o [] = Inr ?r"
    and v': "validateSpecs (cleanEnv_specs example_world []) ?E [] [] ?d [] = Inr ?r'"
    by (simp_all add: clean_eval run_eval)
  have m: "obj_get (v_output ?r) ''NODE_ENV'' = JStr ''test''"
    "obj_get (v_output ?r') ''NODE_ENV'' = JStr ''test''"
    by (simp_all add: obj_get_def)
  have p: "\<forall>t flagged fo. opt_transformer ?o = Some t \<longrightarrow> t flagged = Inr fo
         \<longrightarrow> (\<forall>k \<in> fst ` set (mode_flags (v_output ?r)). map_of (props fo) k = map_of (props flagged) k)"
    "\<forall>t flagged fo. opt_transformer ?d = Some t \<longrightarrow> t flagged = Inr fo
         \<longrightarrow> (\<forall>k \<in> fst ` set (mode_flags (v_output ?r')). map_of (props fo) k = map_of (props flagged) k)"
    by (simp_all add: empty_options_def)
  have ok: "outcome (cleanEnv example_world ?st 0 ?S ?o)
     = Inr \<lparr>props =
              [(''NODE_ENV'', \<lparr>p_value = JStr ''test'', p_writable = False,
                               p_enumerable = True, p_configurable = False\<rparr>),
               (''isDevelopment'', \<lparr>p_value = JBool False, p_writable = False,
                                    p_enumerable = False, p_configurable = False\<rparr>),
               (''isDev'', \<lparr>p_value = JBool False, p_writable = False,
                            p_enumerable = False, p_configurable = False\<rparr>),
               (''isProduction'', \<lparr>p_value = JBool False, p_writable = False,
                                   p_enumerable = False, p_configurable = False\<rparr>),
               (''isProd'', \<lparr>p_value = JBool False, p_writable = False,
                             p_enumerable = False, p_configurable = False\<rparr>),
               (''isTest'', \<lparr>p_value = JBool True, p_writable = False,
                             p_enumerable = False, p_configurable = False\<rparr>)],
            extensible = False, guarded = True\<rparr>"
    by (simp add: clean_eval run_eval)
  obtain ob where ok': "outcome (cleanEnv example_world ?st 0 [] ?d) = Inr ob"
    by (simp add: clean_eval run_eval)
  from mode_flags_test [OF g(2) c v' m(2) p(2) ok']
  have "read_property ob ''isTest'' = Inr (JBool True) \<and> read_property ob ''isProd'' = Inr (JBool False)
        \<and> assign ''isTest'' (JBool False) ob = None \<and> isFrozen ob"
    using ok' by blast
  with ok' have second: "\<exists>ob. outcome (cleanEnv example_world ?st 0 [] ?d) = Inr ob
        \<and> read_property ob ''isTest'' = Inr (JBool True)
        \<and> read_property ob ''isProd'' = Inr (JBool False)
        \<and> assign ''isTest'' (JBool False) ob = None
        \<and> isFrozen ob"
    by blast
  from mode_flags_test [OF g(1) c v m(1) p(1) ok] v ok second show ?thesis
    by simp
qed


end
